theory Spec2Isabelle
  imports Main
begin

section \<open>Go values as seen through package reflect\<close>

text \<open>
  \<^verbatim>\<open>Reserve\<close> and \<^verbatim>\<open>exec\<close> look at their arguments only through package
  \<^verbatim>\<open>reflect\<close>: the kind of a value, its dynamic type, the parameter types of a
  function type and assignability between types. The types covered here are the
  predeclared \<^verbatim>\<open>bool\<close>, \<^verbatim>\<open>int\<close>, \<^verbatim>\<open>string\<close>, the empty interface
  \<^verbatim>\<open>interface{}\<close>, and the unnamed pointer, slice, bidirectional channel and
  function types built from them. A function type holds its fixed parameters and, when
  it is variadic, the element type of its final \<^verbatim>\<open>...T\<close> parameter.
\<close>

datatype gotype =
    TBool
  | TInt
  | TString
  | TAny
  | TPtr gotype
  | TSlice gotype
  | TChan gotype
  | TFunc "gotype list" "gotype option"

text \<open>
  A value of type \<^verbatim>\<open>any\<close>: the nil interface \<open>VNil\<close>, or a dynamic type with a
  payload. A pointer or a function may be a typed nil (\<open>None\<close>), which is not the nil
  interface. A function carries the name of its code, by which the environment decides
  what a call of it does.
\<close>

datatype govalue =
    VNil
  | VBool bool
  | VInt int
  | VString string
  | VPtr gotype "nat option"
  | VSlice gotype "govalue list"
  | VChan gotype nat
  | VFunc "gotype list" "gotype option" "string option"

datatype Kind =
    KInvalid | KBool | KInt | KString | KInterface | KPointer | KSlice | KChan | KFunc

text \<open>\<^verbatim>\<open>reflect.TypeOf\<close>: the dynamic type; \<open>None\<close> for the nil interface.\<close>

fun TypeOf :: "govalue \<Rightarrow> gotype option" where
  "TypeOf VNil = None"
| "TypeOf (VBool b) = Some TBool"
| "TypeOf (VInt i) = Some TInt"
| "TypeOf (VString s) = Some TString"
| "TypeOf (VPtr t p) = Some (TPtr t)"
| "TypeOf (VSlice t xs) = Some (TSlice t)"
| "TypeOf (VChan t c) = Some (TChan t)"
| "TypeOf (VFunc ps v c) = Some (TFunc ps v)"

fun KindOfType :: "gotype \<Rightarrow> Kind" where
  "KindOfType TBool = KBool"
| "KindOfType TInt = KInt"
| "KindOfType TString = KString"
| "KindOfType TAny = KInterface"
| "KindOfType (TPtr t) = KPointer"
| "KindOfType (TSlice t) = KSlice"
| "KindOfType (TChan t) = KChan"
| "KindOfType (TFunc ps v) = KFunc"

text \<open>
  \<^verbatim>\<open>reflect.ValueOf(x).Kind()\<close>: \<^verbatim>\<open>ValueOf(nil)\<close> is the zero Value, whose kind is
  \<^verbatim>\<open>Invalid\<close>. A \<^verbatim>\<open>reflect.Value\<close> is modelled by the value it holds, \<open>VNil\<close>
  standing for the zero Value.
\<close>

definition ValueOf :: "govalue \<Rightarrow> govalue" where
  "ValueOf x = x"

definition KindOf :: "govalue \<Rightarrow> Kind" where
  "KindOf x = (case TypeOf x of None \<Rightarrow> KInvalid | Some t \<Rightarrow> KindOfType t)"

text \<open>
  \<^verbatim>\<open>Type.In(i)\<close> for all \<open>i\<close>, and \<^verbatim>\<open>Type.NumIn()\<close>: the final parameter of a
  variadic function type counts once, with the slice type \<^verbatim>\<open>[]T\<close>.
\<close>

fun In :: "gotype \<Rightarrow> gotype list" where
  "In (TFunc ps None) = ps"
| "In (TFunc ps (Some e)) = ps @ [TSlice e]"
| "In t = []"

definition NumIn :: "gotype \<Rightarrow> nat" where
  "NumIn t = length (In t)"

text \<open>
  \<^verbatim>\<open>Type.AssignableTo\<close> on these types: identical types, or any type to the empty
  interface (every type implements it). None of the types is a named composite type, so
  identical underlying types are identical types.
\<close>

definition AssignableTo :: "gotype \<Rightarrow> gotype \<Rightarrow> bool" where
  "AssignableTo v t = (v = t \<or> t = TAny)"

text \<open>The types that have a nil value of their own.\<close>

fun nilable :: "gotype \<Rightarrow> bool" where
  "nilable TAny = True"
| "nilable (TPtr t) = True"
| "nilable (TSlice t) = True"
| "nilable (TChan t) = True"
| "nilable (TFunc ps v) = True"
| "nilable t = False"

section \<open>The dispatcher's data\<close>

text \<open>
  The sentinel errors of \<^verbatim>\<open>tebata.go\<close>, in the version of the package whose
  \<^verbatim>\<open>Reserve\<close> checks the arguments against the function's parameters.
  \<^verbatim>\<open>Reserve\<close> returns \<^verbatim>\<open>nil\<close> (\<open>None\<close>) or one of them;
  \<^verbatim>\<open>ErrInvalidArgs\<close> is declared and never returned.
\<close>

datatype error =
    ErrInvalidFunction
  | ErrInvalidArgs
  | ErrTypeMismatch
  | ErrTooFewArgs
  | ErrTooManyArgs

text \<open>\<^verbatim>\<open>functionData\<close>: a function and the arguments to call it with.\<close>

record functionData =
  func :: govalue
  args :: "govalue list"

text \<open>
  A buffered channel of signals (\<^verbatim>\<open>chan os.Signal\<close>): the queued values, oldest
  first, the capacity given to \<^verbatim>\<open>make\<close>, and whether \<^verbatim>\<open>close\<close> was called.
\<close>

type_synonym os_Signal = nat

record chan =
  chBuf :: "os_Signal list"
  chCap :: nat
  chClosed :: bool

text \<open>
  \<^verbatim>\<open>Tebata\<close>. \<open>ctxDone\<close> is whether the channel \<^verbatim>\<open>ctx.Done()\<close> is closed, which
  is all that is read of \<^verbatim>\<open>ctx\<close>; \<^verbatim>\<open>cancel\<close> is the function that closes it. The
  mutex is held by \<^verbatim>\<open>Reserve\<close> and by \<^verbatim>\<open>exec\<close> from their first statement to
  their return, so each of the two runs as one step and the lock has no field here.
\<close>

record Tebata =
  ctxDone :: bool
  signalCh :: chan
  reservedFunctions :: "functionData list"

section \<open>Reserve\<close>

text \<open>
  The loop \<^verbatim>\<open>for i := 0; i < numParams; i++\<close> of \<^verbatim>\<open>Reserve\<close>, from index
  \<open>i\<close> on: \<open>Some ErrTypeMismatch\<close> at the first argument that is not nil and whose
  type is not assignable to the parameter's, \<open>None\<close> when the loop runs to its end.
  \<^verbatim>\<open>args[i] == nil\<close> holds exactly when \<^verbatim>\<open>reflect.TypeOf(args[i])\<close> is nil. The
  loop is entered with \<^verbatim>\<open>len(args) == numParams\<close>, so both indexings are in range.
\<close>

function checkArgs :: "gotype \<Rightarrow> govalue list \<Rightarrow> nat \<Rightarrow> nat \<Rightarrow> error option" where
  "checkArgs funcType as numParams i =
     (if i < numParams then
        (case TypeOf (as ! i) of
           None \<Rightarrow> checkArgs funcType as numParams (i + 1)
         | Some argType \<Rightarrow>
             if \<not> AssignableTo argType (In funcType ! i) then Some ErrTypeMismatch
             else checkArgs funcType as numParams (i + 1))
      else None)"
  by pat_completeness auto
termination
  by (relation "measure (\<lambda>(funcType, as, numParams, i). numParams - i)") auto

declare checkArgs.simps [simp del]

text \<open>The type of a function value (\<^verbatim>\<open>funcValue.Type()\<close>, read after the kind check).\<close>

definition TypeOfFunc :: "govalue \<Rightarrow> gotype" where
  "TypeOfFunc f = (case TypeOf f of Some t \<Rightarrow> t | None \<Rightarrow> TFunc [] None)"

text \<open>
  \<^verbatim>\<open>Reserve(function, args...)\<close>: the dispatcher after the call and the error
  returned.
\<close>

definition Reserve :: "Tebata \<Rightarrow> govalue \<Rightarrow> govalue list \<Rightarrow> Tebata \<times> error option" where
  "Reserve s function as =
     (if KindOf (ValueOf function) \<noteq> KFunc then (s, Some ErrInvalidFunction)
      else
        let funcType = TypeOfFunc function;
            numParams = NumIn funcType;
            numArgs = length as
        in if numArgs < numParams then (s, Some ErrTooFewArgs)
           else if numArgs > numParams then (s, Some ErrTooManyArgs)
           else (case checkArgs funcType as numParams 0 of
                   Some e \<Rightarrow> (s, Some e)
                 | None \<Rightarrow>
                     (s\<lparr>reservedFunctions :=
                          reservedFunctions s @ [\<lparr>func = function, args = as\<rparr>]\<rparr>,
                      None)))"

section \<open>exec\<close>

text \<open>
  What a call of a callback does is the caller's business: the environment maps the
  name of a function's code and the arguments it receives to whether the call returns or
  panics. (A callback that ends the process, as \<^verbatim>\<open>os.Exit\<close> does, stops the dispatch
  as a panic does.)
\<close>

datatype outcome = Returns | Panics

type_synonym callee = "string \<Rightarrow> govalue list \<Rightarrow> outcome"

text \<open>
  The panics of a dispatch: those that \<^verbatim>\<open>reflect.Value.Call\<close> raises itself before
  the function is entered, and the callback's own. The last three are the panics of a
  send on a closed channel, of \<^verbatim>\<open>close\<close> on a closed channel and of a write past
  the end of a slice.
\<close>

datatype fault =
    CallOfNonFunction
  | CallOfNilFunction
  | TooFewInputArguments
  | TooManyInputArguments
  | ZeroValueArgument
  | ArgumentNotAssignable
  | VariadicArgumentNotAssignable
  | CallbackPanic
  | SendOnClosedChannel
  | CloseOfClosedChannel
  | IndexOutOfRange

text \<open>
  \<^verbatim>\<open>reflect.Value.Call(in)\<close>, as package \<^verbatim>\<open>reflect\<close> documents and implements it:
  it panics on a value that is not a function, on a nil function, on too few arguments,
  on too many for a function that is not variadic, on a zero Value among the arguments,
  and on an argument whose type is not assignable to its parameter's. For a variadic
  function the arguments beyond the fixed parameters must each be assignable to the
  element type \<open>T\<close> of the final \<^verbatim>\<open>...T\<close>, and \<^verbatim>\<open>Call\<close> builds the slice from them
  itself. Only then is the function entered; \<open>None\<close> is a call that returned.
\<close>

definition typeAssignable :: "govalue \<Rightarrow> gotype \<Rightarrow> bool" where
  "typeAssignable x t = (case TypeOf x of None \<Rightarrow> False | Some xt \<Rightarrow> AssignableTo xt t)"

definition Call :: "callee \<Rightarrow> govalue \<Rightarrow> govalue list \<Rightarrow> fault option" where
  "Call env v ins =
     (case v of
        VFunc ps variadic code \<Rightarrow>
          (case code of
             None \<Rightarrow> Some CallOfNilFunction
           | Some name \<Rightarrow>
               let n = length ps in
               if length ins < n then Some TooFewInputArguments
               else if variadic = None \<and> length ins > n then Some TooManyInputArguments
               else if list_ex (\<lambda>x. KindOf x = KInvalid) ins then Some ZeroValueArgument
               else if \<not> list_all (\<lambda>(x, t). typeAssignable x t) (zip (take n ins) ps)
                 then Some ArgumentNotAssignable
               else (case variadic of
                       None \<Rightarrow>
                         (case env name ins of Returns \<Rightarrow> None | Panics \<Rightarrow> Some CallbackPanic)
                     | Some elem \<Rightarrow>
                         if \<not> list_all (\<lambda>x. typeAssignable x elem) (drop n ins)
                           then Some VariadicArgumentNotAssignable
                         else (case env name (take n ins @ [VSlice elem (drop n ins)]) of
                                 Returns \<Rightarrow> None
                               | Panics \<Rightarrow> Some CallbackPanic)))
      | _ \<Rightarrow> Some CallOfNonFunction)"

text \<open>
  The loop of \<^verbatim>\<open>exec\<close> over \<^verbatim>\<open>s.reservedFunctions\<close>: the reflective calls made, in
  order, each with the function and the argument list given to \<^verbatim>\<open>Call\<close>, and the
  panic that ended the loop, if one did. Nothing recovers a panic, so the first one ends
  the loop (and, unrecovered in the listening goroutine, the process).
\<close>

type_synonym call = "govalue \<times> govalue list"

fun execLoop :: "callee \<Rightarrow> functionData list \<Rightarrow> call list \<times> fault option" where
  "execLoop env [] = ([], None)"
| "execLoop env (fd # fds) =
     (let function = ValueOf (func fd);
          as = map ValueOf (args fd)
      in case Call env function as of
           Some e \<Rightarrow> ([(function, as)], Some e)
         | None \<Rightarrow> (case execLoop env fds of (cs, r) \<Rightarrow> ((function, as) # cs, r)))"

definition exec :: "callee \<Rightarrow> Tebata \<Rightarrow> call list \<times> fault option" where
  "exec env s = execLoop env (reservedFunctions s)"

section \<open>The listening goroutine, signals and Close\<close>

text \<open>
  What package \<^verbatim>\<open>os/signal\<close> holds for the dispatcher's channel: nothing, every
  signal (\<^verbatim>\<open>signal.Notify(c)\<close> with no signal listed), or the listed signals.
\<close>

datatype subscription = Unsubscribed | AllSignals | Only "os_Signal list"

fun wants :: "subscription \<Rightarrow> os_Signal \<Rightarrow> bool" where
  "wants Unsubscribed sig = False"
| "wants AllSignals sig = True"
| "wants (Only sigs) sig = (sig \<in> set sigs)"

text \<open>Where the goroutine started by \<^verbatim>\<open>go s.listen()\<close> stands.\<close>

datatype task = Waiting | Dispatching | Stopped

text \<open>
  A dispatcher in its process: the \<^verbatim>\<open>Tebata\<close>, its subscription, the listening
  goroutine, the reflective calls made so far, the number of runs of \<^verbatim>\<open>exec\<close>, and
  the panic under way, if there is one.
\<close>

record process =
  dispatcher :: Tebata
  notify :: subscription
  task :: task
  calls :: "call list"
  dispatches :: nat
  panicked :: "fault option"

text \<open>
  \<^verbatim>\<open>New(signals...)\<close>: a context that is not cancelled, a channel made with capacity
  1, \<^verbatim>\<open>signal.Notify\<close>, and the listening goroutine at its \<^verbatim>\<open>select\<close>.
\<close>

definition New :: "os_Signal list \<Rightarrow> process" where
  "New signals =
     \<lparr>dispatcher =
        \<lparr>ctxDone = False,
         signalCh = \<lparr>chBuf = [], chCap = 1, chClosed = False\<rparr>,
         reservedFunctions = []\<rparr>,
      notify = (if signals = [] then AllSignals else Only signals),
      task = Waiting,
      calls = [],
      dispatches = 0,
      panicked = None\<rparr>"

text \<open>
  The operating system raises a signal. Package \<^verbatim>\<open>os/signal\<close> sends it to a
  subscribed channel without blocking (\<^verbatim>\<open>select { case c <- sig: default: }\<close>): the
  signal is queued when the buffer has room and dropped when it has none.
\<close>

definition deliver :: "os_Signal \<Rightarrow> process \<Rightarrow> process" where
  "deliver sig p =
     (let c = signalCh (dispatcher p) in
      if wants (notify p) sig then
        (if chClosed c then p\<lparr>panicked := Some SendOnClosedChannel\<rparr>
         else if length (chBuf c) < chCap c
           then p\<lparr>dispatcher := (dispatcher p)\<lparr>signalCh := c\<lparr>chBuf := chBuf c @ [sig]\<rparr>\<rparr>\<rparr>
         else p)
      else p)"

text \<open>
  The \<^verbatim>\<open>select\<close> of \<^verbatim>\<open>listen\<close>. A receive from \<^verbatim>\<open>s.signalCh\<close> can proceed when
  a value is queued or the channel is closed (a closed, empty channel yields the zero
  value at once); the receive from \<^verbatim>\<open>s.ctx.Done()\<close> can proceed once the context is
  cancelled. When both can proceed Go picks one of them by a uniform pseudo-random
  choice, so the case taken is an input of the step.
\<close>

datatype selcase = CaseSignal | CaseDone

fun ready :: "process \<Rightarrow> selcase \<Rightarrow> bool" where
  "ready p CaseSignal =
     (chBuf (signalCh (dispatcher p)) \<noteq> [] \<or> chClosed (signalCh (dispatcher p)))"
| "ready p CaseDone = ctxDone (dispatcher p)"

text \<open>
  One pass of the \<^verbatim>\<open>for\<close> loop of \<^verbatim>\<open>listen\<close> up to the case taken: \<open>None\<close>
  when the goroutine is not at its \<^verbatim>\<open>select\<close> or the case cannot proceed.
\<close>

definition listenSelect :: "selcase \<Rightarrow> process \<Rightarrow> process option" where
  "listenSelect c p =
     (if task p = Waiting \<and> ready p c then
        (case c of
           CaseSignal \<Rightarrow>
             Some (p\<lparr>dispatcher := (dispatcher p)
                        \<lparr>signalCh := (signalCh (dispatcher p))
                           \<lparr>chBuf := tl (chBuf (signalCh (dispatcher p)))\<rparr>\<rparr>,
                      task := Dispatching\<rparr>)
         | CaseDone \<Rightarrow> Some (p\<lparr>task := Stopped\<rparr>))
      else None)"

text \<open>
  The call \<^verbatim>\<open>s.exec()\<close> of the case taken: the goroutine is back at its
  \<^verbatim>\<open>select\<close> when \<^verbatim>\<open>exec\<close> returns; a panic of the dispatch ends the process.
\<close>

definition listenExec :: "callee \<Rightarrow> process \<Rightarrow> process option" where
  "listenExec env p =
     (if task p = Dispatching then
        (case exec env (dispatcher p) of
           (cs, r) \<Rightarrow>
             Some (p\<lparr>calls := calls p @ cs,
                      dispatches := Suc (dispatches p),
                      task := (case r of None \<Rightarrow> Waiting | Some e \<Rightarrow> Dispatching),
                      panicked := r\<rparr>))
      else None)"

text \<open>
  The three statements of \<^verbatim>\<open>Close\<close>, and \<^verbatim>\<open>Close\<close>: \<^verbatim>\<open>cancel()\<close> and
  \<^verbatim>\<open>signal.Stop\<close> can be repeated, \<^verbatim>\<open>close\<close> of a closed channel panics.
\<close>

definition cancel :: "process \<Rightarrow> process" where
  "cancel p = p\<lparr>dispatcher := (dispatcher p)\<lparr>ctxDone := True\<rparr>\<rparr>"

definition signal_Stop :: "process \<Rightarrow> process" where
  "signal_Stop p = p\<lparr>notify := Unsubscribed\<rparr>"

definition closeCh :: "process \<Rightarrow> fault + process" where
  "closeCh p =
     (if chClosed (signalCh (dispatcher p)) then Inl CloseOfClosedChannel
      else Inr (p\<lparr>dispatcher := (dispatcher p)
                    \<lparr>signalCh := (signalCh (dispatcher p))\<lparr>chClosed := True\<rparr>\<rparr>\<rparr>))"

definition Close :: "process \<Rightarrow> fault + process" where
  "Close p = closeCh (signal_Stop (cancel p))"

text \<open>
  \<^verbatim>\<open>Reserve\<close> stores the slice \<^verbatim>\<open>args\<close> itself (\<^verbatim>\<open>args: args\<close>), not a copy.
  A caller that passed a slice of its own, \<^verbatim>\<open>s.Reserve(f, a...)\<close>, still holds it,
  and a later \<^verbatim>\<open>a[i] = v\<close> of the caller writes the stored entry. \<open>writeArg k i v\<close>
  is that statement for the slice of entry \<open>k\<close> of the registry: it panics when \<open>i\<close>
  is out of range.
\<close>

definition writeArg :: "nat \<Rightarrow> nat \<Rightarrow> govalue \<Rightarrow> Tebata \<Rightarrow> fault + Tebata" where
  "writeArg k i v s =
     (let fd = reservedFunctions s ! k in
      if i < length (args fd)
        then Inr (s\<lparr>reservedFunctions :=
                      (reservedFunctions s)[k := fd\<lparr>args := (args fd)[i := v]\<rparr>]\<rparr>)
      else Inl IndexOutOfRange)"

text \<open>
  The panics raised in the caller's goroutine, by its call of \<^verbatim>\<open>Close\<close> or by its
  own write: the caller can recover them and go on. A panic of the dispatch is raised in
  the listening goroutine, where nothing recovers it, and one of the send in package
  \<^verbatim>\<open>os/signal\<close>; these end the process.
\<close>

definition callerPanic :: "fault option \<Rightarrow> bool" where
  "callerPanic r = (r = Some CloseOfClosedChannel \<or> r = Some IndexOutOfRange)"

text \<open>
  What can happen to a live process: a signal is raised, the listening goroutine takes
  a case of its \<^verbatim>\<open>select\<close> or runs \<^verbatim>\<open>exec\<close>, the caller calls \<^verbatim>\<open>Reserve\<close> or
  \<^verbatim>\<open>Close\<close>, or writes into a slice it passed to a call of \<^verbatim>\<open>Reserve\<close> that
  stored it. \<open>None\<close> is an event that cannot happen in the state; after a panic
  nothing can but the caller recovering a panic of its own goroutine. A call of
  \<^verbatim>\<open>Reserve\<close>, a run of \<^verbatim>\<open>exec\<close> (both under the mutex) and a call of
  \<^verbatim>\<open>Close\<close> are each one event; signals may be raised between any two events, so
  also between the receive of a notification and the run of \<^verbatim>\<open>exec\<close>.
\<close>

datatype event =
    Raise os_Signal
  | Select selcase
  | RunExec
  | CallReserve govalue "govalue list"
  | CallClose
  | WriteArg nat nat govalue
  | Recover

fun isWriteArg :: "event \<Rightarrow> bool" where
  "isWriteArg (WriteArg k i v) = True"
| "isWriteArg ev = False"

fun step :: "callee \<Rightarrow> event \<Rightarrow> process \<Rightarrow> process option" where
  "step env ev p =
     (if panicked p = None then
        (case ev of
           Raise sig \<Rightarrow> Some (deliver sig p)
         | Select c \<Rightarrow> listenSelect c p
         | RunExec \<Rightarrow> listenExec env p
         | CallReserve f as \<Rightarrow> Some (p\<lparr>dispatcher := fst (Reserve (dispatcher p) f as)\<rparr>)
         | CallClose \<Rightarrow>
             (case Close p of
                Inl e \<Rightarrow> Some ((signal_Stop (cancel p))\<lparr>panicked := Some e\<rparr>)
              | Inr p' \<Rightarrow> Some p')
         | WriteArg k i v \<Rightarrow>
             (if k < length (reservedFunctions (dispatcher p)) then
                (case writeArg k i v (dispatcher p) of
                   Inl e \<Rightarrow> Some (p\<lparr>panicked := Some e\<rparr>)
                 | Inr s \<Rightarrow> Some (p\<lparr>dispatcher := s\<rparr>))
              else None)
         | Recover \<Rightarrow> None)
      else if ev = Recover \<and> callerPanic (panicked p) then Some (p\<lparr>panicked := None\<rparr>)
      else None)"

fun run :: "callee \<Rightarrow> event list \<Rightarrow> process \<Rightarrow> process option" where
  "run env [] p = Some p"
| "run env (ev # evs) p = (case step env ev p of None \<Rightarrow> None | Some p' \<Rightarrow> run env evs p')"

section \<open>Properties stated about the registry\<close>


text \<open>
  What \<^verbatim>\<open>Reserve\<close> has checked of an entry it stores: the function is of kind
  \<^verbatim>\<open>Func\<close>, there are as many arguments as parameters, and each argument is nil or
  of a type assignable to its parameter's.
\<close>

definition reservedInvariant :: "functionData \<Rightarrow> bool" where
  "reservedInvariant fd =
     (KindOf (func fd) = KFunc \<and>
      length (args fd) = NumIn (TypeOfFunc (func fd)) \<and>
      list_all (\<lambda>(a, t). a = VNil \<or> typeAssignable a t)
        (zip (args fd) (In (TypeOfFunc (func fd)))))"

text \<open>
  The invariant of a ReservedCall in the words of the specification: as many bound
  arguments as parameters, and each argument assignable to the declared type of its
  parameter, or the declared type one that has a nil value and the argument nil.
\<close>

definition specInvariant :: "functionData \<Rightarrow> bool" where
  "specInvariant fd =
     (length (args fd) = NumIn (TypeOfFunc (func fd)) \<and>
      list_all (\<lambda>(a, t). typeAssignable a t \<or> (nilable t \<and> a = VNil))
        (zip (args fd) (In (TypeOfFunc (func fd)))))"

text \<open>
  The functions of \<^verbatim>\<open>example/main.go\<close>, \<^verbatim>\<open>sum(firstArg, secondArg int)\<close> and
  \<^verbatim>\<open>hello()\<close>, and a function \<^verbatim>\<open>boom()\<close> that panics; an environment in which
  every callback but \<^verbatim>\<open>boom\<close> returns.
\<close>

definition sumFn :: govalue where
  "sumFn = VFunc [TInt, TInt] None (Some ''sum'')"

definition helloFn :: govalue where
  "helloFn = VFunc [] None (Some ''hello'')"


definition exampleEnv :: callee where
  "exampleEnv name as = (if name = ''boom'' then Panics else Returns)"

section \<open>Reserve: the order of its checks\<close>

lemma TypeOf_None_iff: "TypeOf x = None \<longleftrightarrow> x = VNil"
  by (cases x) simp_all

lemma checkArgs_result:
  "checkArgs ft as n i = None \<or> checkArgs ft as n i = Some ErrTypeMismatch"
proof (induction ft as n i rule: checkArgs.induct)
  case (1 ft as n i)
  show ?case
  proof (cases "i < n")
    case False
    then show ?thesis by (simp add: checkArgs.simps)
  next
    case True
    show ?thesis
    proof (cases "TypeOf (as ! i)")
      case None
      with True 1(1) show ?thesis by (simp add: checkArgs.simps [of ft as n i])
    next
      case (Some t)
      with True 1(2) show ?thesis
        by (cases "AssignableTo t (In ft ! i)") (simp_all add: checkArgs.simps [of ft as n i])
    qed
  qed
qed

lemma checkArgs_mismatch_iff:
  "checkArgs ft as n i = Some ErrTypeMismatch \<longleftrightarrow>
     (\<exists>j t. i \<le> j \<and> j < n \<and> TypeOf (as ! j) = Some t \<and> \<not> AssignableTo t (In ft ! j))"
proof (induction ft as n i rule: checkArgs.induct)
  case (1 ft as n i)
  show ?case
  proof (cases "i < n")
    case False
    then show ?thesis by (simp add: checkArgs.simps [of ft as n i])
  next
    case True
    show ?thesis
    proof (cases "TypeOf (as ! i)")
      case None
      have "checkArgs ft as n i = checkArgs ft as n (i + 1)"
        using True None by (simp add: checkArgs.simps [of ft as n i])
      also have "(\<dots> = Some ErrTypeMismatch) \<longleftrightarrow>
        (\<exists>j t. i + 1 \<le> j \<and> j < n \<and> TypeOf (as ! j) = Some t \<and> \<not> AssignableTo t (In ft ! j))"
        using 1(1) [OF True None] .
      also have "\<dots> \<longleftrightarrow>
        (\<exists>j t. i \<le> j \<and> j < n \<and> TypeOf (as ! j) = Some t \<and> \<not> AssignableTo t (In ft ! j))"
      proof -
        have "j \<noteq> i" if "TypeOf (as ! j) = Some t" for j t
          using that None by auto
        then show ?thesis
          by (metis Suc_eq_plus1 Suc_leD Suc_leI le_neq_implies_less)
      qed
      finally show ?thesis .
    next
      case (Some t)
      show ?thesis
      proof (cases "AssignableTo t (In ft ! i)")
        case False
        then have "checkArgs ft as n i = Some ErrTypeMismatch"
          using True Some by (simp add: checkArgs.simps [of ft as n i])
        moreover have
          "\<exists>j t. i \<le> j \<and> j < n \<and> TypeOf (as ! j) = Some t \<and> \<not> AssignableTo t (In ft ! j)"
          using True Some False by blast
        ultimately show ?thesis by simp
      next
        case yes: True
        have "checkArgs ft as n i = checkArgs ft as n (i + 1)"
          using True Some yes by (simp add: checkArgs.simps [of ft as n i])
        also have "(\<dots> = Some ErrTypeMismatch) \<longleftrightarrow>
          (\<exists>j t. i + 1 \<le> j \<and> j < n \<and> TypeOf (as ! j) = Some t \<and> \<not> AssignableTo t (In ft ! j))"
          using 1(2) [OF True Some] yes by simp
        also have "\<dots> \<longleftrightarrow>
          (\<exists>j t. i \<le> j \<and> j < n \<and> TypeOf (as ! j) = Some t \<and> \<not> AssignableTo t (In ft ! j))"
        proof -
          have "j \<noteq> i"
            if "TypeOf (as ! j) = Some t'" "\<not> AssignableTo t' (In ft ! j)" for j t'
            using that Some yes by auto
          then show ?thesis
            by (metis Suc_eq_plus1 Suc_leD Suc_leI le_neq_implies_less)
        qed
        finally show ?thesis .
      qed
    qed
  qed
qed

text \<open>\<^verbatim>\<open>Reserve\<close> as the chain of its five returns.\<close>

lemma Reserve_cases:
  "Reserve s f as =
     (if KindOf f \<noteq> KFunc then (s, Some ErrInvalidFunction)
      else if length as < NumIn (TypeOfFunc f) then (s, Some ErrTooFewArgs)
      else if length as > NumIn (TypeOfFunc f) then (s, Some ErrTooManyArgs)
      else if checkArgs (TypeOfFunc f) as (NumIn (TypeOfFunc f)) 0 = Some ErrTypeMismatch
        then (s, Some ErrTypeMismatch)
      else (s\<lparr>reservedFunctions := reservedFunctions s @ [\<lparr>func = f, args = as\<rparr>]\<rparr>, None))"
  using checkArgs_result [of "TypeOfFunc f" as "NumIn (TypeOfFunc f)" 0]
  by (auto simp: Reserve_def ValueOf_def Let_def)

text \<open>
  Claim C5. When the first argument of \<^verbatim>\<open>Reserve\<close> is not a function value (its
  kind is not \<^verbatim>\<open>Func\<close>; the nil interface is such a value), \<^verbatim>\<open>Reserve\<close>
  returns \<^verbatim>\<open>ErrInvalidFunction\<close> and leaves the dispatcher as it was, whatever the
  arguments after the first are.
\<close>

theorem Reserve_non_function_invalid:
  "KindOf f \<noteq> KFunc \<Longrightarrow> Reserve s f as = (s, Some ErrInvalidFunction)"
  by (simp add: Reserve_cases)

theorem Reserve_non_function_invalid_witness:
  "KindOf (VString ''not a function'') \<noteq> KFunc \<and>
   Reserve (dispatcher (New [2])) (VString ''not a function'') [VInt 1, VNil]
     = (dispatcher (New [2]), Some ErrInvalidFunction) \<and>
   KindOf VNil \<noteq> KFunc \<and>
   Reserve (dispatcher (New [2])) VNil [] = (dispatcher (New [2]), Some ErrInvalidFunction)"
  using Reserve_non_function_invalid
      [of "VString ''not a function''" "dispatcher (New [2])" "[VInt 1, VNil]"]
    Reserve_non_function_invalid [of VNil "dispatcher (New [2])" "[]"]
  by (simp add: KindOf_def)

text \<open>
  Claim C4. For a function with \<open>k\<close> parameters (\<^verbatim>\<open>NumIn\<close> of its type),
  \<^verbatim>\<open>Reserve\<close> with \<open>n\<close> arguments returns \<^verbatim>\<open>ErrTooFewArgs\<close> whenever
  \<open>n < k\<close> and \<^verbatim>\<open>ErrTooManyArgs\<close> whenever \<open>n > k\<close>.
\<close>

theorem Reserve_arity_errors:
  "KindOf f = KFunc \<Longrightarrow>
     (length as < NumIn (TypeOfFunc f) \<longrightarrow> Reserve s f as = (s, Some ErrTooFewArgs)) \<and>
     (length as > NumIn (TypeOfFunc f) \<longrightarrow> Reserve s f as = (s, Some ErrTooManyArgs))"
  by (simp add: Reserve_cases)

theorem Reserve_arity_errors_witness:
  "KindOf (VFunc [TString, TInt] None (Some ''f'')) = KFunc \<and>
   length [VString ''test''] < NumIn (TypeOfFunc (VFunc [TString, TInt] None (Some ''f''))) \<and>
   Reserve (dispatcher (New [2])) (VFunc [TString, TInt] None (Some ''f'')) [VString ''test'']
     = (dispatcher (New [2]), Some ErrTooFewArgs) \<and>
   KindOf (VFunc [TString] None (Some ''g'')) = KFunc \<and>
   length [VString ''test'', VInt 123] > NumIn (TypeOfFunc (VFunc [TString] None (Some ''g''))) \<and>
   Reserve (dispatcher (New [2])) (VFunc [TString] None (Some ''g'')) [VString ''test'', VInt 123]
     = (dispatcher (New [2]), Some ErrTooManyArgs)"
  using Reserve_arity_errors
      [of "VFunc [TString, TInt] None (Some ''f'')" "[VString ''test'']" "dispatcher (New [2])"]
    Reserve_arity_errors
      [of "VFunc [TString] None (Some ''g'')" "[VString ''test'', VInt 123]" "dispatcher (New [2])"]
  by (simp add: KindOf_def TypeOfFunc_def NumIn_def)

text \<open>
  Claim C6. Whenever \<^verbatim>\<open>Reserve\<close> returns an error, the dispatcher, and so the
  sequence of reserved functions, is what it was before the call, and the error is one
  of \<^verbatim>\<open>ErrInvalidFunction\<close>, \<^verbatim>\<open>ErrTooFewArgs\<close>, \<^verbatim>\<open>ErrTooManyArgs\<close> and
  \<^verbatim>\<open>ErrTypeMismatch\<close>.
\<close>

theorem Reserve_error_no_effect:
  "Reserve s f as = (s', Some e) \<Longrightarrow>
     s' = s \<and> e \<in> {ErrInvalidFunction, ErrTooFewArgs, ErrTooManyArgs, ErrTypeMismatch}"
  by (auto simp: Reserve_cases split: if_splits)

theorem Reserve_error_no_effect_witness:
  "Reserve (fst (Reserve (dispatcher (New [2])) helloFn [])) (VFunc [TString, TInt] None (Some ''f''))
       [VInt 123, VString ''test'']
     = (fst (Reserve (dispatcher (New [2])) helloFn []), Some ErrTypeMismatch) \<and>
   reservedFunctions (fst (Reserve (dispatcher (New [2])) helloFn []))
     = [\<lparr>func = helloFn, args = []\<rparr>]"
proof -
  have r: "Reserve (fst (Reserve (dispatcher (New [2])) helloFn []))
       (VFunc [TString, TInt] None (Some ''f'')) [VInt 123, VString ''test'']
     = (fst (Reserve (dispatcher (New [2])) helloFn []), Some ErrTypeMismatch)"
    by (simp add: Reserve_def New_def KindOf_def ValueOf_def TypeOfFunc_def NumIn_def
        checkArgs.simps AssignableTo_def helloFn_def)
  have "reservedFunctions (fst (Reserve (dispatcher (New [2])) helloFn []))
     = [\<lparr>func = helloFn, args = []\<rparr>]"
    by (simp add: Reserve_def New_def KindOf_def ValueOf_def TypeOfFunc_def NumIn_def
        checkArgs.simps helloFn_def)
  with Reserve_error_no_effect [OF r] r show ?thesis by simp
qed

text \<open>
  Claim C3, as amended. The checks of \<^verbatim>\<open>Reserve\<close> run in order, so the type check
  is reached only by a function value with exactly as many arguments as parameters. For
  such a call \<^verbatim>\<open>Reserve\<close> returns \<^verbatim>\<open>ErrTypeMismatch\<close> if and only if, at some
  parameter index \<open>i\<close>, the argument is not nil and its dynamic type is not assignable
  to the type of parameter \<open>i\<close>; a nil argument is passed over whatever the parameter's
  type is, so a call whose arguments are all nil is accepted.
\<close>

theorem Reserve_TypeMismatch_iff:
  "KindOf f = KFunc \<Longrightarrow> length as = NumIn (TypeOfFunc f) \<Longrightarrow>
     (snd (Reserve s f as) = Some ErrTypeMismatch \<longleftrightarrow>
        (\<exists>i t. i < NumIn (TypeOfFunc f) \<and> TypeOf (as ! i) = Some t \<and>
               \<not> AssignableTo t (In (TypeOfFunc f) ! i))) \<and>
     (list_all (\<lambda>a. a = VNil) as \<longrightarrow> snd (Reserve s f as) = None)"
proof -
  assume k: "KindOf f = KFunc" and n: "length as = NumIn (TypeOfFunc f)"
  have 1: "snd (Reserve s f as) = Some ErrTypeMismatch \<longleftrightarrow>
        (\<exists>i t. i < NumIn (TypeOfFunc f) \<and> TypeOf (as ! i) = Some t \<and>
               \<not> AssignableTo t (In (TypeOfFunc f) ! i))"
    using k n by (simp add: Reserve_cases checkArgs_mismatch_iff)
  have 2: "snd (Reserve s f as) = None" if nil: "list_all (\<lambda>a. a = VNil) as"
  proof -
    have "\<not> (\<exists>i t. i < NumIn (TypeOfFunc f) \<and> TypeOf (as ! i) = Some t \<and>
               \<not> AssignableTo t (In (TypeOfFunc f) ! i))"
    proof
      assume "\<exists>i t. i < NumIn (TypeOfFunc f) \<and> TypeOf (as ! i) = Some t \<and>
               \<not> AssignableTo t (In (TypeOfFunc f) ! i)"
      then obtain i t where "i < length as" "TypeOf (as ! i) = Some t" using n by auto
      moreover from this nil have "as ! i = VNil" by (simp add: list_all_length)
      ultimately show False by simp
    qed
    then show ?thesis using k n by (simp add: Reserve_cases checkArgs_mismatch_iff)
  qed
  from 1 2 show ?thesis by blast
qed

theorem Reserve_TypeMismatch_iff_witness:
  "KindOf (VFunc [TString, TInt] None (Some ''f'')) = KFunc \<and>
   length [VInt 123, VString ''test'']
     = NumIn (TypeOfFunc (VFunc [TString, TInt] None (Some ''f''))) \<and>
   snd (Reserve (dispatcher (New [2])) (VFunc [TString, TInt] None (Some ''f''))
          [VInt 123, VString ''test'']) = Some ErrTypeMismatch \<and>
   KindOf (VFunc [TPtr TString] None (Some ''g'')) = KFunc \<and>
   length [VNil] = NumIn (TypeOfFunc (VFunc [TPtr TString] None (Some ''g''))) \<and>
   list_all (\<lambda>a. a = VNil) [VNil] \<and>
   snd (Reserve (dispatcher (New [2])) (VFunc [TPtr TString] None (Some ''g'')) [VNil]) = None"
proof -
  have k: "KindOf (VFunc [TString, TInt] None (Some ''f'')) = KFunc"
    and k': "KindOf (VFunc [TPtr TString] None (Some ''g'')) = KFunc"
    by (simp_all add: KindOf_def)
  have n: "length [VInt 123, VString ''test'']
      = NumIn (TypeOfFunc (VFunc [TString, TInt] None (Some ''f'')))"
    and n': "length [VNil] = NumIn (TypeOfFunc (VFunc [TPtr TString] None (Some ''g'')))"
    by (simp_all add: TypeOfFunc_def NumIn_def)
  have ex: "\<exists>i t. i < NumIn (TypeOfFunc (VFunc [TString, TInt] None (Some ''f''))) \<and>
      TypeOf ([VInt 123, VString ''test''] ! i) = Some t \<and>
      \<not> AssignableTo t (In (TypeOfFunc (VFunc [TString, TInt] None (Some ''f''))) ! i)"
    by (rule exI [of _ 0], rule exI [of _ TInt])
      (simp add: TypeOfFunc_def NumIn_def AssignableTo_def)
  from Reserve_TypeMismatch_iff [OF k n, of "dispatcher (New [2])"] ex
    Reserve_TypeMismatch_iff [OF k' n', of "dispatcher (New [2])"] k k' n n'
  show ?thesis by simp
qed

text \<open>
  Claim C3 as stated fails where an earlier check answers first: for
  \<^verbatim>\<open>func(a string)\<close> and the arguments \<^verbatim>\<open>123, "test"\<close> the argument at parameter
  index 0 is not nil and an \<^verbatim>\<open>int\<close> is not assignable to \<^verbatim>\<open>string\<close>, yet
  \<^verbatim>\<open>Reserve\<close> returns \<^verbatim>\<open>ErrTooManyArgs\<close>.
\<close>

theorem Reserve_TypeMismatch_iff_counterexample:
  "\<not> (snd (Reserve (dispatcher (New [2])) (VFunc [TString] None (Some ''f''))
              [VInt 123, VString ''test'']) = Some ErrTypeMismatch \<longleftrightarrow>
        (\<exists>i t. i < NumIn (TypeOfFunc (VFunc [TString] None (Some ''f''))) \<and>
               TypeOf ([VInt 123, VString ''test''] ! i) = Some t \<and>
               \<not> AssignableTo t (In (TypeOfFunc (VFunc [TString] None (Some ''f''))) ! i)))"
proof -
  have "snd (Reserve (dispatcher (New [2])) (VFunc [TString] None (Some ''f''))
              [VInt 123, VString ''test'']) = Some ErrTooManyArgs"
    by (simp add: Reserve_def KindOf_def ValueOf_def TypeOfFunc_def NumIn_def)
  moreover have "\<exists>i t. i < NumIn (TypeOfFunc (VFunc [TString] None (Some ''f''))) \<and>
               TypeOf ([VInt 123, VString ''test''] ! i) = Some t \<and>
               \<not> AssignableTo t (In (TypeOfFunc (VFunc [TString] None (Some ''f''))) ! i)"
    by (rule exI [of _ 0], rule exI [of _ TInt])
      (simp add: TypeOfFunc_def NumIn_def AssignableTo_def)
  ultimately show ?thesis by simp
qed

section \<open>exec: the calls of a dispatch\<close>

lemma map_ValueOf: "map ValueOf xs = xs"
  by (induction xs) (simp_all add: ValueOf_def)

lemma execLoop_Cons:
  "execLoop env (fd # fds) =
     (case Call env (func fd) (args fd) of
        Some e \<Rightarrow> ([(func fd, args fd)], Some e)
      | None \<Rightarrow> ((func fd, args fd) # fst (execLoop env fds), snd (execLoop env fds)))"
  by (simp add: map_ValueOf ValueOf_def Let_def split: option.splits prod.splits)

declare execLoop.simps(2) [simp del]



lemma execLoop_completes_iff:
  "snd (execLoop env fds) = None \<longleftrightarrow> list_all (\<lambda>fd. Call env (func fd) (args fd) = None) fds"
  by (induction fds) (auto simp: execLoop_Cons split: option.splits)

lemma exec_completes_iff:
  "snd (exec env s) = None \<longleftrightarrow>
     list_all (\<lambda>fd. Call env (func fd) (args fd) = None) (reservedFunctions s)"
  by (simp add: exec_def execLoop_completes_iff)


lemma hello_call: "Call exampleEnv helloFn [] = None"
  by (simp add: Call_def helloFn_def exampleEnv_def)


lemma reserve_sum:
  "Reserve s sumFn [VInt 1, VInt 2] =
     (s\<lparr>reservedFunctions := reservedFunctions s @ [\<lparr>func = sumFn, args = [VInt 1, VInt 2]\<rparr>]\<rparr>, None)"
  by (simp add: Reserve_def sumFn_def KindOf_def ValueOf_def TypeOfFunc_def NumIn_def
      checkArgs.simps AssignableTo_def)

lemma reserve_hello:
  "Reserve s helloFn [] =
     (s\<lparr>reservedFunctions := reservedFunctions s @ [\<lparr>func = helloFn, args = []\<rparr>]\<rparr>, None)"
  by (simp add: Reserve_def helloFn_def KindOf_def ValueOf_def TypeOfFunc_def NumIn_def
      checkArgs.simps)


lemma reserve_int_nil:
  "Reserve s (VFunc [TInt] None (Some ''f'')) [VNil] =
     (s\<lparr>reservedFunctions := reservedFunctions s @ [\<lparr>func = VFunc [TInt] None (Some ''f''), args = [VNil]\<rparr>]\<rparr>, None)"
  by (simp add: Reserve_def KindOf_def ValueOf_def TypeOfFunc_def NumIn_def checkArgs.simps)

lemma reserve_variadic:
  "Reserve s (VFunc [] (Some TInt) (Some ''f'')) [VSlice TInt [VInt 1, VInt 2]] =
     (s\<lparr>reservedFunctions := reservedFunctions s @
          [\<lparr>func = VFunc [] (Some TInt) (Some ''f''), args = [VSlice TInt [VInt 1, VInt 2]]\<rparr>]\<rparr>, None)"
  by (simp add: Reserve_def KindOf_def ValueOf_def TypeOfFunc_def NumIn_def checkArgs.simps
      AssignableTo_def)

text \<open>Runs of events: invariants and concatenation.\<close>

lemma run_invariant:
  assumes "run env evs p = Some p'" and "P p"
    and "\<And>ev q q'. step env ev q = Some q' \<Longrightarrow> P q \<Longrightarrow> P q'"
  shows "P p'"
  using assms(1,2)
proof (induction evs arbitrary: p)
  case Nil
  then show ?case by simp
next
  case (Cons ev evs)
  from Cons.prems(1) obtain q where q: "step env ev p = Some q" and r: "run env evs q = Some p'"
    by (auto split: option.splits simp del: step.simps)
  from assms(3) [OF q Cons.prems(2)] have "P q" .
  from Cons.IH [OF r this] show ?case .
qed

lemma run_append:
  "run env (evs @ evs') p = (case run env evs p of None \<Rightarrow> None | Some q \<Rightarrow> run env evs' q)"
  by (induction evs arbitrary: p) (simp_all split: option.splits del: step.simps)




section \<open>What every reserved entry satisfies\<close>

lemma checkArgs_accepts_iff:
  assumes "length as = NumIn ft"
  shows "checkArgs ft as (NumIn ft) 0 \<noteq> Some ErrTypeMismatch \<longleftrightarrow>
     list_all (\<lambda>(a, t). a = VNil \<or> typeAssignable a t) (zip as (In ft))"
proof -
  have len: "length (zip as (In ft)) = NumIn ft"
    using assms by (simp add: NumIn_def)
  have P: "(as ! j = VNil \<or> typeAssignable (as ! j) (In ft ! j)) \<longleftrightarrow>
      \<not> (\<exists>t. TypeOf (as ! j) = Some t \<and> \<not> AssignableTo t (In ft ! j))" for j
    by (cases "as ! j") (simp_all add: typeAssignable_def)
  have "list_all (\<lambda>(a, t). a = VNil \<or> typeAssignable a t) (zip as (In ft)) \<longleftrightarrow>
      (\<forall>j < NumIn ft. as ! j = VNil \<or> typeAssignable (as ! j) (In ft ! j))"
    using assms by (simp add: list_all_length NumIn_def)
  also have "\<dots> \<longleftrightarrow> \<not> (\<exists>j t. j < NumIn ft \<and> TypeOf (as ! j) = Some t \<and>
      \<not> AssignableTo t (In ft ! j))"
    using P by blast
  finally show ?thesis by (simp add: checkArgs_mismatch_iff)
qed

lemma Reserve_stores_checked:
  "Reserve s f as = (s', None) \<Longrightarrow> reservedInvariant \<lparr>func = f, args = as\<rparr>"
  by (auto simp: Reserve_cases reservedInvariant_def checkArgs_accepts_iff split: if_splits)

lemma Reserve_registry:
  "reservedFunctions (fst (Reserve s f as)) =
     (if snd (Reserve s f as) = None then reservedFunctions s @ [\<lparr>func = f, args = as\<rparr>]
      else reservedFunctions s)"
  by (simp add: Reserve_cases)

lemma Reserve_other_fields:
  "signalCh (fst (Reserve s f as)) = signalCh s" "ctxDone (fst (Reserve s f as)) = ctxDone s"
  by (simp_all add: Reserve_cases)

lemma Reserve_keeps_invariant:
  assumes "list_all reservedInvariant (reservedFunctions s)"
  shows "list_all reservedInvariant (reservedFunctions (fst (Reserve s f as)))"
proof (cases "snd (Reserve s f as)")
  case None
  then have "Reserve s f as = (fst (Reserve s f as), None)" by (metis prod.collapse)
  from Reserve_stores_checked [OF this] assms None show ?thesis
    by (simp add: Reserve_registry)
next
  case (Some e)
  with assms show ?thesis by (simp add: Reserve_registry)
qed

text \<open>What one event does to the \<^verbatim>\<open>Tebata\<close> and to the subscription.\<close>

lemma step_dispatcher:
  assumes "step env ev p = Some p'"
  shows "dispatcher p' = dispatcher p
    \<or> (\<exists>sig. ev = Raise sig \<and> dispatcher p' = (dispatcher p)\<lparr>signalCh := (signalCh (dispatcher p))\<lparr>chBuf := chBuf (signalCh (dispatcher p)) @ [sig]\<rparr>\<rparr> \<and> length (chBuf (signalCh (dispatcher p))) < chCap (signalCh (dispatcher p)))
    \<or> (ev = Select CaseSignal \<and> dispatcher p' = (dispatcher p)\<lparr>signalCh := (signalCh (dispatcher p))\<lparr>chBuf := tl (chBuf (signalCh (dispatcher p)))\<rparr>\<rparr>)
    \<or> (\<exists>f as. ev = CallReserve f as \<and> dispatcher p' = fst (Reserve (dispatcher p) f as))
    \<or> (ev = CallClose \<and> dispatcher p' = (dispatcher p)\<lparr>ctxDone := True\<rparr>)
    \<or> (ev = CallClose \<and> dispatcher p' = (dispatcher p)\<lparr>ctxDone := True, signalCh := (signalCh (dispatcher p))\<lparr>chClosed := True\<rparr>\<rparr>)
    \<or> (isWriteArg ev \<and> signalCh (dispatcher p') = signalCh (dispatcher p) \<and>
          ctxDone (dispatcher p') = ctxDone (dispatcher p))"
proof (cases ev)
  case (Raise sig)
  with assms show ?thesis by (auto simp: deliver_def Let_def split: if_splits)
next
  case (Select c)
  with assms show ?thesis by (cases c) (auto simp: listenSelect_def split: if_splits)
next
  case RunExec
  with assms show ?thesis by (auto simp: listenExec_def split: if_splits prod.splits)
next
  case (CallReserve f as)
  with assms show ?thesis by (auto split: if_splits)
next
  case CallClose
  with assms show ?thesis
    by (auto simp: Close_def closeCh_def cancel_def signal_Stop_def split: if_splits)
next
  case (WriteArg k i v)
  with assms show ?thesis
    by (auto simp: writeArg_def Let_def split: if_splits)
next
  case Recover
  with assms show ?thesis by (auto split: if_splits)
qed

lemma step_registry_invariant:
  assumes "step env ev p = Some p'" and "\<not> isWriteArg ev"
    and "list_all reservedInvariant (reservedFunctions (dispatcher p))"
  shows "list_all reservedInvariant (reservedFunctions (dispatcher p'))"
  using step_dispatcher [OF assms(1)] assms(2,3) Reserve_keeps_invariant
  by (elim disjE exE conjE) simp_all

lemma step_chan_invariant:
  assumes "step env ev p = Some p'"
    and "chCap (signalCh (dispatcher p)) = 1 \<and> length (chBuf (signalCh (dispatcher p))) \<le> 1"
  shows "chCap (signalCh (dispatcher p')) = 1 \<and> length (chBuf (signalCh (dispatcher p'))) \<le> 1"
  using step_dispatcher [OF assms(1)] assms(2)
  by (elim disjE exE conjE) (simp_all add: Reserve_other_fields)


lemma step_notify:
  assumes "step env ev p = Some p'"
  shows "(ev \<noteq> CallClose \<and> notify p' = notify p \<and>
            (chClosed (signalCh (dispatcher p')) \<longleftrightarrow> chClosed (signalCh (dispatcher p))))
         \<or> (ev = CallClose \<and> notify p' = Unsubscribed)"
proof (cases ev)
  case (Raise sig)
  with assms show ?thesis by (auto simp: deliver_def Let_def split: if_splits)
next
  case (Select c)
  with assms show ?thesis by (cases c) (auto simp: listenSelect_def split: if_splits)
next
  case RunExec
  with assms show ?thesis by (auto simp: listenExec_def split: if_splits prod.splits)
next
  case (CallReserve f as)
  with assms show ?thesis by (auto simp: Reserve_other_fields split: if_splits)
next
  case CallClose
  with assms show ?thesis
    by (auto simp: Close_def closeCh_def cancel_def signal_Stop_def split: if_splits)
next
  case (WriteArg k i v)
  with assms show ?thesis
    by (auto simp: writeArg_def Let_def split: if_splits)
next
  case Recover
  with assms show ?thesis by (auto split: if_splits)
qed

lemma step_closed_invariant:
  assumes "step env ev p = Some p'"
    and "chClosed (signalCh (dispatcher p)) \<Longrightarrow> notify p = Unsubscribed"
  shows "chClosed (signalCh (dispatcher p')) \<Longrightarrow> notify p' = Unsubscribed"
  using step_notify [OF assms(1)] assms(2) by auto

lemma step_unsubscribed:
  assumes "step env ev p = Some p'" and "notify p = Unsubscribed"
  shows "notify p' = Unsubscribed"
  using step_notify [OF assms(1)] assms(2) by auto

lemma deliver_unsubscribed: "notify p = Unsubscribed \<Longrightarrow> deliver sig p = p"
  by (simp add: deliver_def)

lemma deliver_full:
  assumes "length (chBuf (signalCh (dispatcher p))) = chCap (signalCh (dispatcher p))"
    and "chClosed (signalCh (dispatcher p)) \<Longrightarrow> notify p = Unsubscribed"
  shows "deliver sig p = p"
  using assms by (auto simp: deliver_def Let_def)

text \<open>Runs in which the caller leaves the slices it passed to \<^verbatim>\<open>Reserve\<close> alone.\<close>

lemma run_invariant_on:
  assumes "run env evs p = Some p'" and "list_all Q evs" and "P p"
    and "\<And>ev q q'. step env ev q = Some q' \<Longrightarrow> Q ev \<Longrightarrow> P q \<Longrightarrow> P q'"
  shows "P p'"
  using assms(1,2,3)
proof (induction evs arbitrary: p)
  case Nil
  then show ?case by simp
next
  case (Cons ev evs)
  from Cons.prems(1) obtain q where q: "step env ev p = Some q" and r: "run env evs q = Some p'"
    by (auto split: option.splits simp del: step.simps)
  from Cons.prems(2) have ev: "Q ev" and evs: "list_all Q evs" by simp_all
  from assms(4) [OF q ev Cons.prems(3)] have "P q" .
  from Cons.IH [OF r evs this] show ?case .
qed

text \<open>
  Of the statements of the package only the append of \<^verbatim>\<open>Reserve\<close> writes
  \<^verbatim>\<open>reservedFunctions\<close>: the send of a signal, the \<^verbatim>\<open>select\<close>, \<^verbatim>\<open>exec\<close> and
  each statement of \<^verbatim>\<open>Close\<close> leave the registry as it is.
\<close>

lemma registry_untouched:
  "reservedFunctions (dispatcher (deliver sig p)) = reservedFunctions (dispatcher p)"
  "reservedFunctions (dispatcher (cancel p)) = reservedFunctions (dispatcher p)"
  "reservedFunctions (dispatcher (signal_Stop p)) = reservedFunctions (dispatcher p)"
  "closeCh p = Inr p' \<Longrightarrow> reservedFunctions (dispatcher p') = reservedFunctions (dispatcher p)"
  "listenSelect c p = Some p' \<Longrightarrow>
     reservedFunctions (dispatcher p') = reservedFunctions (dispatcher p)"
  "listenExec env p = Some p' \<Longrightarrow>
     reservedFunctions (dispatcher p') = reservedFunctions (dispatcher p)"
proof -
  show "reservedFunctions (dispatcher (deliver sig p)) = reservedFunctions (dispatcher p)"
    by (simp add: deliver_def Let_def)
  show "reservedFunctions (dispatcher (cancel p)) = reservedFunctions (dispatcher p)"
    by (simp add: cancel_def)
  show "reservedFunctions (dispatcher (signal_Stop p)) = reservedFunctions (dispatcher p)"
    by (simp add: signal_Stop_def)
  show "reservedFunctions (dispatcher p') = reservedFunctions (dispatcher p)"
    if "closeCh p = Inr p'"
    using that by (auto simp: closeCh_def split: if_splits)
  show "reservedFunctions (dispatcher p') = reservedFunctions (dispatcher p)"
    if "listenSelect c p = Some p'"
    using that by (cases c) (auto simp: listenSelect_def split: if_splits)
  show "reservedFunctions (dispatcher p') = reservedFunctions (dispatcher p)"
    if "listenExec env p = Some p'"
    using that by (auto simp: listenExec_def split: if_splits prod.splits)
qed

lemma reservedInvariant_spec:
  assumes "reservedInvariant fd"
  shows "specInvariant fd \<or>
      list_ex (\<lambda>(a, t). a = VNil \<and> \<not> nilable t) (zip (args fd) (In (TypeOfFunc (func fd))))"
proof (cases "list_ex (\<lambda>(a, t). a = VNil \<and> \<not> nilable t)
    (zip (args fd) (In (TypeOfFunc (func fd))))")
  case True
  then show ?thesis by simp
next
  case False
  then have "\<forall>x \<in> set (zip (args fd) (In (TypeOfFunc (func fd)))).
      \<not> (case x of (a, t) \<Rightarrow> a = VNil \<and> \<not> nilable t)"
    by (simp add: list_ex_iff)
  moreover from assms have "\<forall>x \<in> set (zip (args fd) (In (TypeOfFunc (func fd)))).
      (case x of (a, t) \<Rightarrow> a = VNil \<or> typeAssignable a t)"
    by (simp add: reservedInvariant_def list_all_iff)
  ultimately have "\<forall>x \<in> set (zip (args fd) (In (TypeOfFunc (func fd)))).
      (case x of (a, t) \<Rightarrow> typeAssignable a t \<or> (nilable t \<and> a = VNil))"
    by fastforce
  with assms show ?thesis
    by (simp add: specInvariant_def reservedInvariant_def list_all_iff)
qed

text \<open>
  Claim C8, as amended. Every entry has, when \<^verbatim>\<open>Reserve\<close> stores it, a function
  value, as many bound arguments as the function has parameters, and each bound argument
  nil (whatever the type of its parameter) or of a type assignable to the type of its
  parameter; the entry is appended and the entries before it are not touched. No other
  statement of the package writes the registry, so in every state that a dispatcher made
  by \<^verbatim>\<open>New\<close> reaches (signals, \<^verbatim>\<open>select\<close>, \<^verbatim>\<open>exec\<close>, \<^verbatim>\<open>Reserve\<close>,
  \<^verbatim>\<open>Close\<close> and recovered panics of the caller, in any order) without a write of the
  caller into a slice it passed to \<^verbatim>\<open>Reserve\<close>, every entry of the registry has
  these properties, and meets the invariant as the specification words it unless it
  binds nil to a parameter whose type has no nil value.
\<close>

theorem reserved_calls_invariant:
  "(Reserve s f as = (s', None) \<longrightarrow>
      reservedFunctions s' = reservedFunctions s @ [\<lparr>func = f, args = as\<rparr>] \<and>
      reservedInvariant \<lparr>func = f, args = as\<rparr>) \<and>
   reservedFunctions (dispatcher (deliver sig q)) = reservedFunctions (dispatcher q) \<and>
   reservedFunctions (dispatcher (cancel q)) = reservedFunctions (dispatcher q) \<and>
   reservedFunctions (dispatcher (signal_Stop q)) = reservedFunctions (dispatcher q) \<and>
   (closeCh q = Inr qa \<longrightarrow>
      reservedFunctions (dispatcher qa) = reservedFunctions (dispatcher q)) \<and>
   (listenSelect c q = Some qb \<longrightarrow>
      reservedFunctions (dispatcher qb) = reservedFunctions (dispatcher q)) \<and>
   (listenExec env q = Some qc \<longrightarrow>
      reservedFunctions (dispatcher qc) = reservedFunctions (dispatcher q)) \<and>
   (run env evs (New signals) = Some p \<and> list_all (\<lambda>ev. \<not> isWriteArg ev) evs \<longrightarrow>
      list_all reservedInvariant (reservedFunctions (dispatcher p)) \<and>
      list_all (\<lambda>fd. specInvariant fd \<or>
                  list_ex (\<lambda>(a, t). a = VNil \<and> \<not> nilable t)
                    (zip (args fd) (In (TypeOfFunc (func fd)))))
        (reservedFunctions (dispatcher p)))"
proof (intro conjI impI)
  assume r: "Reserve s f as = (s', None)"
  then show "reservedInvariant \<lparr>func = f, args = as\<rparr>"
    by (rule Reserve_stores_checked)
  from r have "snd (Reserve s f as) = None" and "fst (Reserve s f as) = s'" by simp_all
  with Reserve_registry [of s f as]
  show "reservedFunctions s' = reservedFunctions s @ [\<lparr>func = f, args = as\<rparr>]" by simp
next
  show "reservedFunctions (dispatcher (deliver sig q)) = reservedFunctions (dispatcher q)"
    "reservedFunctions (dispatcher (cancel q)) = reservedFunctions (dispatcher q)"
    "reservedFunctions (dispatcher (signal_Stop q)) = reservedFunctions (dispatcher q)"
    by (rule registry_untouched)+
next
  assume "closeCh q = Inr qa"
  then show "reservedFunctions (dispatcher qa) = reservedFunctions (dispatcher q)"
    by (rule registry_untouched)
next
  assume "listenSelect c q = Some qb"
  then show "reservedFunctions (dispatcher qb) = reservedFunctions (dispatcher q)"
    by (rule registry_untouched)
next
  assume "listenExec env q = Some qc"
  then show "reservedFunctions (dispatcher qc) = reservedFunctions (dispatcher q)"
    by (rule registry_untouched)
next
  assume "run env evs (New signals) = Some p \<and> list_all (\<lambda>ev. \<not> isWriteArg ev) evs"
  then have r: "run env evs (New signals) = Some p"
    and w: "list_all (\<lambda>ev. \<not> isWriteArg ev) evs" by simp_all
  show inv: "list_all reservedInvariant (reservedFunctions (dispatcher p))"
  proof (rule run_invariant_on [OF r w,
        where P = "\<lambda>q. list_all reservedInvariant (reservedFunctions (dispatcher q))"])
    show "list_all reservedInvariant (reservedFunctions (dispatcher (New signals)))"
      by (simp add: New_def)
  next
    fix ev r r'
    assume "step env ev r = Some r'" and "\<not> isWriteArg ev"
      and "list_all reservedInvariant (reservedFunctions (dispatcher r))"
    then show "list_all reservedInvariant (reservedFunctions (dispatcher r'))"
      by (rule step_registry_invariant)
  qed
  with reservedInvariant_spec
  show "list_all (\<lambda>fd. specInvariant fd \<or>
                  list_ex (\<lambda>(a, t). a = VNil \<and> \<not> nilable t)
                    (zip (args fd) (In (TypeOfFunc (func fd)))))
        (reservedFunctions (dispatcher p))"
    by (simp add: list_all_iff)
qed

theorem reserved_calls_invariant_witness:
  "Reserve (dispatcher (New [2])) sumFn [VInt 1, VInt 2]
     = ((dispatcher (New [2]))
          \<lparr>reservedFunctions := [\<lparr>func = sumFn, args = [VInt 1, VInt 2]\<rparr>]\<rparr>, None) \<and>
   reservedInvariant \<lparr>func = sumFn, args = [VInt 1, VInt 2]\<rparr> \<and>
   closeCh (New [2])
     = Inr ((New [2])\<lparr>dispatcher := (dispatcher (New [2]))
              \<lparr>signalCh := \<lparr>chBuf = [], chCap = 1, chClosed = True\<rparr>\<rparr>\<rparr>) \<and>
   listenSelect CaseDone (cancel (New [2])) = Some ((cancel (New [2]))\<lparr>task := Stopped\<rparr>) \<and>
   listenExec exampleEnv ((New [2])\<lparr>task := Dispatching\<rparr>) = Some ((New [2])\<lparr>dispatches := 1\<rparr>) \<and>
   run exampleEnv
       [CallReserve sumFn [VInt 1, VInt 2], CallClose, CallClose, Recover,
        CallReserve (VFunc [TInt] None (Some ''f'')) [VNil]]
       (New [2])
     = Some ((New [2])\<lparr>dispatcher :=
                \<lparr>ctxDone = True,
                 signalCh = \<lparr>chBuf = [], chCap = 1, chClosed = True\<rparr>,
                 reservedFunctions =
                   [\<lparr>func = sumFn, args = [VInt 1, VInt 2]\<rparr>,
                    \<lparr>func = VFunc [TInt] None (Some ''f''), args = [VNil]\<rparr>]\<rparr>,
              notify := Unsubscribed\<rparr>) \<and>
   list_all (\<lambda>ev. \<not> isWriteArg ev)
       [CallReserve sumFn [VInt 1, VInt 2], CallClose, CallClose, Recover,
        CallReserve (VFunc [TInt] None (Some ''f'')) [VNil]] \<and>
   list_all reservedInvariant
     [\<lparr>func = sumFn, args = [VInt 1, VInt 2]\<rparr>,
      \<lparr>func = VFunc [TInt] None (Some ''f''), args = [VNil]\<rparr>] \<and>
   specInvariant \<lparr>func = sumFn, args = [VInt 1, VInt 2]\<rparr>"
proof -
  define evs where "evs = [CallReserve sumFn [VInt 1, VInt 2], CallClose, CallClose, Recover,
        CallReserve (VFunc [TInt] None (Some ''f'')) [VNil]]"
  define p where "p = (New [2])\<lparr>dispatcher :=
                \<lparr>ctxDone = True,
                 signalCh = \<lparr>chBuf = [], chCap = 1, chClosed = True\<rparr>,
                 reservedFunctions =
                   [\<lparr>func = sumFn, args = [VInt 1, VInt 2]\<rparr>,
                    \<lparr>func = VFunc [TInt] None (Some ''f''), args = [VNil]\<rparr>]\<rparr>,
              notify := Unsubscribed\<rparr>"
  have res: "Reserve (dispatcher (New [2])) sumFn [VInt 1, VInt 2]
     = ((dispatcher (New [2]))
          \<lparr>reservedFunctions := [\<lparr>func = sumFn, args = [VInt 1, VInt 2]\<rparr>]\<rparr>, None)"
    by (simp add: reserve_sum New_def)
  have cl: "closeCh (New [2])
     = Inr ((New [2])\<lparr>dispatcher := (dispatcher (New [2]))
              \<lparr>signalCh := \<lparr>chBuf = [], chCap = 1, chClosed = True\<rparr>\<rparr>\<rparr>)"
    by (simp add: closeCh_def New_def)
  have sel: "listenSelect CaseDone (cancel (New [2])) = Some ((cancel (New [2]))\<lparr>task := Stopped\<rparr>)"
    by (simp add: listenSelect_def cancel_def New_def)
  have ex: "listenExec exampleEnv ((New [2])\<lparr>task := Dispatching\<rparr>)
      = Some ((New [2])\<lparr>dispatches := 1\<rparr>)"
    by (simp add: listenExec_def exec_def New_def)
  have r: "run exampleEnv evs (New [2]) = Some p"
    by (simp add: evs_def p_def New_def reserve_sum reserve_int_nil Close_def closeCh_def
        cancel_def signal_Stop_def callerPanic_def)
  have w: "list_all (\<lambda>ev. \<not> isWriteArg ev) evs" by (simp add: evs_def)
  have n: "\<not> list_ex (\<lambda>(a, t). a = VNil \<and> \<not> nilable t)
      (zip (args \<lparr>func = sumFn, args = [VInt 1, VInt 2]\<rparr>)
           (In (TypeOfFunc (func \<lparr>func = sumFn, args = [VInt 1, VInt 2]\<rparr>))))"
    by (simp add: sumFn_def TypeOfFunc_def)
  note inst = reserved_calls_invariant
    [where s = "dispatcher (New [2])" and f = sumFn and as = "[VInt 1, VInt 2]"
      and s' = "(dispatcher (New [2]))
          \<lparr>reservedFunctions := [\<lparr>func = sumFn, args = [VInt 1, VInt 2]\<rparr>]\<rparr>"
      and q = "New [2]"
      and qa = "(New [2])\<lparr>dispatcher := (dispatcher (New [2]))
              \<lparr>signalCh := \<lparr>chBuf = [], chCap = 1, chClosed = True\<rparr>\<rparr>\<rparr>"
      and env = exampleEnv and evs = evs and signals = "[2]" and p = p]
  from inst res have a: "reservedInvariant \<lparr>func = sumFn, args = [VInt 1, VInt 2]\<rparr>"
    by blast
  from inst cl have "reservedFunctions (dispatcher ((New [2])\<lparr>dispatcher := (dispatcher (New [2]))
              \<lparr>signalCh := \<lparr>chBuf = [], chCap = 1, chClosed = True\<rparr>\<rparr>\<rparr>))
      = reservedFunctions (dispatcher (New [2]))"
    by blast
  from inst r w have b: "list_all reservedInvariant (reservedFunctions (dispatcher p))"
    and c: "list_all (\<lambda>fd. specInvariant fd \<or>
                  list_ex (\<lambda>(a, t). a = VNil \<and> \<not> nilable t)
                    (zip (args fd) (In (TypeOfFunc (func fd)))))
        (reservedFunctions (dispatcher p))"
    by blast+
  from c n have d: "specInvariant \<lparr>func = sumFn, args = [VInt 1, VInt 2]\<rparr>"
    by (simp add: p_def)
  from b have e: "list_all reservedInvariant
     [\<lparr>func = sumFn, args = [VInt 1, VInt 2]\<rparr>,
      \<lparr>func = VFunc [TInt] None (Some ''f''), args = [VNil]\<rparr>]"
    by (simp add: p_def)
  from res a cl sel ex r w e d show ?thesis
    unfolding evs_def p_def by (intro conjI)
qed

text \<open>
  Claim C8 as stated fails for a nil bound to a parameter without a nil value:
  \<^verbatim>\<open>Reserve(func(a int) {}, nil)\<close> succeeds, and nil is neither assignable to
  \<^verbatim>\<open>int\<close> nor is \<^verbatim>\<open>int\<close> a pointer, interface or other type with a nil value.
\<close>

theorem reserved_calls_invariant_counterexample:
  "Reserve (dispatcher (New [2])) (VFunc [TInt] None (Some ''f'')) [VNil]
     = ((dispatcher (New [2]))\<lparr>reservedFunctions := [\<lparr>func = VFunc [TInt] None (Some ''f''), args = [VNil]\<rparr>]\<rparr>, None) \<and>
   \<not> specInvariant \<lparr>func = VFunc [TInt] None (Some ''f''), args = [VNil]\<rparr>"
  by (simp add: reserve_int_nil New_def specInvariant_def typeAssignable_def TypeOfFunc_def NumIn_def)

text \<open>
  A write of the caller into the slice it passed: after \<^verbatim>\<open>a := []any{1, 2}\<close>,
  \<^verbatim>\<open>s.Reserve(sum, a...)\<close> and \<^verbatim>\<open>a[0] = "x"\<close> the registry holds the arguments
  \<^verbatim>\<open>"x", 2\<close> for \<^verbatim>\<open>sum(firstArg, secondArg int)\<close>, which \<^verbatim>\<open>Reserve\<close> would
  have refused.
\<close>

lemma caller_write_changes_entry:
  "run exampleEnv [CallReserve sumFn [VInt 1, VInt 2], WriteArg 0 0 (VString ''x'')] (New [2])
     = Some ((New [2])\<lparr>dispatcher := (dispatcher (New [2]))
          \<lparr>reservedFunctions := [\<lparr>func = sumFn, args = [VString ''x'', VInt 2]\<rparr>]\<rparr>\<rparr>) \<and>
   \<not> reservedInvariant \<lparr>func = sumFn, args = [VString ''x'', VInt 2]\<rparr> \<and>
   snd (Reserve (dispatcher (New [2])) sumFn [VString ''x'', VInt 2]) = Some ErrTypeMismatch"
  by (simp add: reserve_sum New_def writeArg_def reservedInvariant_def sumFn_def TypeOfFunc_def
      NumIn_def typeAssignable_def AssignableTo_def Reserve_def KindOf_def ValueOf_def
      checkArgs.simps)

section \<open>The signal channel\<close>

lemma run_reachable_invariants:
  assumes "run env evs (New signals) = Some p"
  shows "chCap (signalCh (dispatcher p)) = 1 \<and> length (chBuf (signalCh (dispatcher p))) \<le> 1"
    and "chClosed (signalCh (dispatcher p)) \<longrightarrow> notify p = Unsubscribed"
proof -
  show "chCap (signalCh (dispatcher p)) = 1 \<and> length (chBuf (signalCh (dispatcher p))) \<le> 1"
  proof (rule run_invariant [OF assms, where P = "\<lambda>q. chCap (signalCh (dispatcher q)) = 1 \<and>
          length (chBuf (signalCh (dispatcher q))) \<le> 1"])
    show "chCap (signalCh (dispatcher (New signals))) = 1 \<and>
        length (chBuf (signalCh (dispatcher (New signals)))) \<le> 1"
      by (simp add: New_def)
  next
    fix ev q q'
    assume "step env ev q = Some q'"
      and "chCap (signalCh (dispatcher q)) = 1 \<and> length (chBuf (signalCh (dispatcher q))) \<le> 1"
    then show "chCap (signalCh (dispatcher q')) = 1 \<and>
        length (chBuf (signalCh (dispatcher q'))) \<le> 1"
      by (rule step_chan_invariant)
  qed
  show "chClosed (signalCh (dispatcher p)) \<longrightarrow> notify p = Unsubscribed"
  proof (rule run_invariant [OF assms, where P = "\<lambda>q. chClosed (signalCh (dispatcher q)) \<longrightarrow>
          notify q = Unsubscribed"])
    show "chClosed (signalCh (dispatcher (New signals))) \<longrightarrow> notify (New signals) = Unsubscribed"
      by (simp add: New_def)
  next
    fix ev q q'
    assume "step env ev q = Some q'"
      and "chClosed (signalCh (dispatcher q)) \<longrightarrow> notify q = Unsubscribed"
    then show "chClosed (signalCh (dispatcher q')) \<longrightarrow> notify q' = Unsubscribed"
      using step_closed_invariant by blast
  qed
qed

lemma two_raises_one_dispatch:
  "run env [Raise sig, Raise sig, Select CaseSignal, RunExec] (New [sig])
     = Some ((New [sig])\<lparr>dispatches := 1\<rparr>)"
  by (simp add: New_def deliver_def listenSelect_def listenExec_def exec_def)

text \<open>
  Claim C9. \<^verbatim>\<open>New\<close> makes the signal channel with capacity 1, and in every state a
  dispatcher reaches the capacity is 1 and at most one notification is queued. A signal
  raised while one is queued, during a dispatch or not, is dropped: the state does not
  change. So two signals raised in a row before the listening goroutine runs are seen as
  one dispatch, after which no notification is left to receive.
\<close>

theorem signal_queue_capacity_one:
  "chCap (signalCh (dispatcher (New signals))) = 1 \<and>
   (run env evs (New signals) = Some p \<longrightarrow>
      chCap (signalCh (dispatcher p)) = 1 \<and>
      length (chBuf (signalCh (dispatcher p))) \<le> 1 \<and>
      (length (chBuf (signalCh (dispatcher p))) = 1 \<longrightarrow> deliver sig p = p)) \<and>
   run env [Raise sig, Raise sig, Select CaseSignal, RunExec] (New [sig])
     = Some ((New [sig])\<lparr>dispatches := 1\<rparr>) \<and>
   step env (Select CaseSignal) ((New [sig])\<lparr>dispatches := 1\<rparr>) = None"
proof (intro conjI impI)
  show "chCap (signalCh (dispatcher (New signals))) = 1" by (simp add: New_def)
  show "run env [Raise sig, Raise sig, Select CaseSignal, RunExec] (New [sig])
     = Some ((New [sig])\<lparr>dispatches := 1\<rparr>)"
    by (rule two_raises_one_dispatch)
  show "step env (Select CaseSignal) ((New [sig])\<lparr>dispatches := 1\<rparr>) = None"
    by (simp add: New_def listenSelect_def)
next
  assume r: "run env evs (New signals) = Some p"
  from run_reachable_invariants(1) [OF r]
  show "chCap (signalCh (dispatcher p)) = 1" and "length (chBuf (signalCh (dispatcher p))) \<le> 1"
    by simp_all
  assume "length (chBuf (signalCh (dispatcher p))) = 1"
  with run_reachable_invariants [OF r] show "deliver sig p = p"
    by (intro deliver_full) simp_all
qed

theorem signal_queue_capacity_one_witness:
  "run exampleEnv [Raise 2, Select CaseSignal, Raise 15, Raise 2] (New [2, 15])
     = Some ((New [2, 15])
         \<lparr>dispatcher := (dispatcher (New [2, 15]))
            \<lparr>signalCh := \<lparr>chBuf = [15], chCap = 1, chClosed = False\<rparr>\<rparr>,
          task := Dispatching\<rparr>) \<and>
   deliver 2 ((New [2, 15])
         \<lparr>dispatcher := (dispatcher (New [2, 15]))
            \<lparr>signalCh := \<lparr>chBuf = [15], chCap = 1, chClosed = False\<rparr>\<rparr>,
          task := Dispatching\<rparr>)
     = (New [2, 15])
         \<lparr>dispatcher := (dispatcher (New [2, 15]))
            \<lparr>signalCh := \<lparr>chBuf = [15], chCap = 1, chClosed = False\<rparr>\<rparr>,
          task := Dispatching\<rparr>"
proof -
  define p where "p = (New [2, 15])
         \<lparr>dispatcher := (dispatcher (New [2, 15]))
            \<lparr>signalCh := \<lparr>chBuf = [15], chCap = 1, chClosed = False\<rparr>\<rparr>,
          task := Dispatching\<rparr>"
  have r: "run exampleEnv [Raise 2, Select CaseSignal, Raise 15, Raise 2] (New [2, 15]) = Some p"
    by (simp add: p_def New_def deliver_def listenSelect_def)
  have l: "length (chBuf (signalCh (dispatcher p))) = 1" by (simp add: p_def)
  from signal_queue_capacity_one [where signals = "[2, 15]" and env = exampleEnv
      and evs = "[Raise 2, Select CaseSignal, Raise 15, Raise 2]" and p = p and sig = 2]
    r l have "deliver 2 p = p" by blast
  with r show ?thesis unfolding p_def by simp
qed

section \<open>Close and the select of listen\<close>

lemma Close_open:
  "chClosed (signalCh (dispatcher p)) = False \<Longrightarrow>
     Close p = Inr (p\<lparr>dispatcher := (dispatcher p)
                       \<lparr>ctxDone := True,
                        signalCh := (signalCh (dispatcher p))\<lparr>chClosed := True\<rparr>\<rparr>,
                     notify := Unsubscribed\<rparr>)"
  by (simp add: Close_def closeCh_def cancel_def signal_Stop_def)

lemma step_CallClose_unsubscribed:
  "step env CallClose p = Some p' \<Longrightarrow> notify p' = Unsubscribed"
  using step_notify [of env CallClose p p'] by simp

lemma run_unsubscribed:
  assumes "run env evs p = Some p'" and "notify p = Unsubscribed"
  shows "notify p' = Unsubscribed"
proof (rule run_invariant [OF assms(1), where P = "\<lambda>q. notify q = Unsubscribed"])
  show "notify p = Unsubscribed" by (rule assms(2))
next
  fix ev q q'
  assume "step env ev q = Some q'" and "notify q = Unsubscribed"
  then show "notify q' = Unsubscribed" by (rule step_unsubscribed)
qed

lemma run_after_Close_unsubscribed:
  assumes "run env (evs @ CallClose # evs') p = Some q"
  shows "notify q = Unsubscribed"
proof -
  from assms obtain p1 where 1: "run env evs p = Some p1"
    and 2: "run env (CallClose # evs') p1 = Some q"
    by (auto simp: run_append split: option.splits simp del: step.simps)
  from 2 obtain p2 where 3: "step env CallClose p1 = Some p2" and 4: "run env evs' p2 = Some q"
    by (auto split: option.splits simp del: step.simps)
  from run_unsubscribed [OF 4 step_CallClose_unsubscribed [OF 3]] show ?thesis .
qed

text \<open>Only \<^verbatim>\<open>Close\<close> closes the channel: before its first call the channel is open.\<close>

lemma run_without_Close_open:
  assumes "run env evs p = Some p'" and "CallClose \<notin> set evs"
  shows "chClosed (signalCh (dispatcher p')) = chClosed (signalCh (dispatcher p))"
  using assms
proof (induction evs arbitrary: p)
  case Nil
  then show ?case by simp
next
  case (Cons ev evs)
  from Cons.prems(1) obtain q where q: "step env ev p = Some q" and r: "run env evs q = Some p'"
    by (auto split: option.splits simp del: step.simps)
  from Cons.prems(2) have "ev \<noteq> CallClose" and rest: "CallClose \<notin> set evs" by auto
  with step_notify [OF q]
  have "chClosed (signalCh (dispatcher q)) = chClosed (signalCh (dispatcher p))" by auto
  with Cons.IH [OF r rest] show ?case by simp
qed

lemma before_first_Close_open:
  "run env evs (New signals) = Some p \<Longrightarrow> CallClose \<notin> set evs \<Longrightarrow>
     chClosed (signalCh (dispatcher p)) = False"
  using run_without_Close_open [of env evs "New signals" p] by (simp add: New_def)

text \<open>
  Claim C2, as amended. A call of \<^verbatim>\<open>Close\<close> on a dispatcher whose channel is not
  yet closed (a first call) does not panic: it cancels the context, ends the
  subscription and closes the channel, and changes nothing else. Cancelling and
  unsubscribing are idempotent. In every state after a call of \<^verbatim>\<open>Close\<close> the
  subscription is ended, so a signal raised then is not sent to the channel and changes
  nothing. No statement of \<^verbatim>\<open>Close\<close> waits, so \<^verbatim>\<open>Close\<close> is a total function
  here.
\<close>

theorem Close_first_call:
  "(chClosed (signalCh (dispatcher p)) = False \<longrightarrow>
      Close p = Inr (p\<lparr>dispatcher := (dispatcher p)
                        \<lparr>ctxDone := True,
                         signalCh := (signalCh (dispatcher p))\<lparr>chClosed := True\<rparr>\<rparr>,
                      notify := Unsubscribed\<rparr>)) \<and>
   cancel (cancel p) = cancel p \<and>
   signal_Stop (signal_Stop p) = signal_Stop p \<and>
   (run env (evs @ CallClose # evs') (New signals) = Some q \<longrightarrow>
      notify q = Unsubscribed \<and> deliver sig q = q)"
proof (intro conjI impI)
  show "Close p = Inr (p\<lparr>dispatcher := (dispatcher p)
                        \<lparr>ctxDone := True,
                         signalCh := (signalCh (dispatcher p))\<lparr>chClosed := True\<rparr>\<rparr>,
                      notify := Unsubscribed\<rparr>)"
    if "chClosed (signalCh (dispatcher p)) = False"
    using that by (rule Close_open)
  show "cancel (cancel p) = cancel p" by (simp add: cancel_def)
  show "signal_Stop (signal_Stop p) = signal_Stop p" by (simp add: signal_Stop_def)
next
  assume r: "run env (evs @ CallClose # evs') (New signals) = Some q"
  from run_after_Close_unsubscribed [OF r] show "notify q = Unsubscribed" .
  then show "deliver sig q = q" by (rule deliver_unsubscribed)
qed

theorem Close_first_call_witness:
  "chClosed (signalCh (dispatcher (New [2]))) = False \<and>
   Close (New [2])
     = Inr ((New [2])\<lparr>dispatcher := (dispatcher (New [2]))
                        \<lparr>ctxDone := True,
                         signalCh := \<lparr>chBuf = [], chCap = 1, chClosed = True\<rparr>\<rparr>,
                      notify := Unsubscribed\<rparr>) \<and>
   run exampleEnv ([CallReserve helloFn []] @ CallClose # [Raise 2]) (New [2])
     = Some ((New [2])\<lparr>dispatcher :=
                \<lparr>ctxDone = True,
                 signalCh = \<lparr>chBuf = [], chCap = 1, chClosed = True\<rparr>,
                 reservedFunctions = [\<lparr>func = helloFn, args = []\<rparr>]\<rparr>,
              notify := Unsubscribed\<rparr>) \<and>
   deliver 2 ((New [2])\<lparr>dispatcher :=
                \<lparr>ctxDone = True,
                 signalCh = \<lparr>chBuf = [], chCap = 1, chClosed = True\<rparr>,
                 reservedFunctions = [\<lparr>func = helloFn, args = []\<rparr>]\<rparr>,
              notify := Unsubscribed\<rparr>)
     = (New [2])\<lparr>dispatcher :=
                \<lparr>ctxDone = True,
                 signalCh = \<lparr>chBuf = [], chCap = 1, chClosed = True\<rparr>,
                 reservedFunctions = [\<lparr>func = helloFn, args = []\<rparr>]\<rparr>,
              notify := Unsubscribed\<rparr>"
proof -
  define q where "q = (New [2])\<lparr>dispatcher :=
                \<lparr>ctxDone = True,
                 signalCh = \<lparr>chBuf = [], chCap = 1, chClosed = True\<rparr>,
                 reservedFunctions = [\<lparr>func = helloFn, args = []\<rparr>]\<rparr>,
              notify := Unsubscribed\<rparr>"
  have o: "chClosed (signalCh (dispatcher (New [2]))) = False" by (simp add: New_def)
  have r: "run exampleEnv ([CallReserve helloFn []] @ CallClose # [Raise 2]) (New [2]) = Some q"
    by (simp add: q_def New_def reserve_hello Close_def closeCh_def cancel_def signal_Stop_def
        deliver_def)
  from Close_first_call [where p = "New [2]" and env = exampleEnv and evs = "[CallReserve helloFn []]"
      and evs' = "[Raise 2]" and signals = "[2]" and q = q and sig = 2] o r
  have "Close (New [2]) = Inr ((New [2])\<lparr>dispatcher := (dispatcher (New [2]))
                        \<lparr>ctxDone := True,
                         signalCh := (signalCh (dispatcher (New [2])))\<lparr>chClosed := True\<rparr>\<rparr>,
                      notify := Unsubscribed\<rparr>)" and "deliver 2 q = q"
    by blast+
  with o r show ?thesis unfolding q_def by (simp add: New_def)
qed

text \<open>
  Claim C2 as stated fails at the second call: \<^verbatim>\<open>close(s.signalCh)\<close> on the channel
  that the first call closed panics.
\<close>

theorem Close_second_call_counterexample:
  "Close (New [2])
     = Inr ((New [2])\<lparr>dispatcher := (dispatcher (New [2]))
                        \<lparr>ctxDone := True,
                         signalCh := \<lparr>chBuf = [], chCap = 1, chClosed = True\<rparr>\<rparr>,
                      notify := Unsubscribed\<rparr>) \<and>
   Close ((New [2])\<lparr>dispatcher := (dispatcher (New [2]))
                        \<lparr>ctxDone := True,
                         signalCh := \<lparr>chBuf = [], chCap = 1, chClosed = True\<rparr>\<rparr>,
                      notify := Unsubscribed\<rparr>)
     = Inl CloseOfClosedChannel \<and>
   run exampleEnv [CallClose, CallClose] (New [2])
     = Some ((New [2])\<lparr>dispatcher := (dispatcher (New [2]))
                        \<lparr>ctxDone := True,
                         signalCh := \<lparr>chBuf = [], chCap = 1, chClosed = True\<rparr>\<rparr>,
                      notify := Unsubscribed,
                      panicked := Some CloseOfClosedChannel\<rparr>)"
  by (simp add: New_def Close_def closeCh_def cancel_def signal_Stop_def)

text \<open>
  Claim C7, as amended. At the \<^verbatim>\<open>select\<close> of \<^verbatim>\<open>listen\<close>, with the context
  cancelled and a notification queued, both cases can proceed and either may be taken:
  the cancellation case stops the goroutine and leaves the notification queued; the
  signal case receives the notification and goes on to \<^verbatim>\<open>exec\<close>. Cancellation is
  sure to be taken only when it alone can proceed (nothing queued, channel open). A
  stopped goroutine takes no further step.
\<close>

theorem select_cancellation_and_signal:
  "(task p = Waiting \<and> panicked p = None \<and> ctxDone (dispatcher p) \<and>
    chBuf (signalCh (dispatcher p)) = sig # rest \<longrightarrow>
      step env (Select CaseDone) p = Some (p\<lparr>task := Stopped\<rparr>) \<and>
      step env (Select CaseSignal) p =
        Some (p\<lparr>dispatcher := (dispatcher p)
                   \<lparr>signalCh := (signalCh (dispatcher p))\<lparr>chBuf := rest\<rparr>\<rparr>,
                 task := Dispatching\<rparr>)) \<and>
   (task p = Waiting \<and> panicked p = None \<and> ctxDone (dispatcher p) \<and>
    chBuf (signalCh (dispatcher p)) = [] \<and> chClosed (signalCh (dispatcher p)) = False \<longrightarrow>
      step env (Select CaseSignal) p = None \<and>
      step env (Select CaseDone) p = Some (p\<lparr>task := Stopped\<rparr>)) \<and>
   (task p = Stopped \<longrightarrow> step env (Select c) p = None \<and> step env RunExec p = None)"
  by (cases c) (simp_all add: listenSelect_def listenExec_def)

theorem select_cancellation_and_signal_witness:
  "run exampleEnv [CallReserve helloFn [], Raise 2, CallClose] (New [2])
     = Some ((New [2])\<lparr>dispatcher :=
                \<lparr>ctxDone = True,
                 signalCh = \<lparr>chBuf = [2], chCap = 1, chClosed = True\<rparr>,
                 reservedFunctions = [\<lparr>func = helloFn, args = []\<rparr>]\<rparr>,
              notify := Unsubscribed\<rparr>) \<and>
   step exampleEnv (Select CaseDone)
       ((New [2])\<lparr>dispatcher :=
                \<lparr>ctxDone = True,
                 signalCh = \<lparr>chBuf = [2], chCap = 1, chClosed = True\<rparr>,
                 reservedFunctions = [\<lparr>func = helloFn, args = []\<rparr>]\<rparr>,
              notify := Unsubscribed\<rparr>)
     = Some ((New [2])\<lparr>dispatcher :=
                \<lparr>ctxDone = True,
                 signalCh = \<lparr>chBuf = [2], chCap = 1, chClosed = True\<rparr>,
                 reservedFunctions = [\<lparr>func = helloFn, args = []\<rparr>]\<rparr>,
              notify := Unsubscribed, task := Stopped\<rparr>) \<and>
   step exampleEnv (Select CaseSignal)
       ((New [2])\<lparr>dispatcher :=
                \<lparr>ctxDone = True,
                 signalCh = \<lparr>chBuf = [2], chCap = 1, chClosed = True\<rparr>,
                 reservedFunctions = [\<lparr>func = helloFn, args = []\<rparr>]\<rparr>,
              notify := Unsubscribed\<rparr>)
     = Some ((New [2])\<lparr>dispatcher :=
                \<lparr>ctxDone = True,
                 signalCh = \<lparr>chBuf = [], chCap = 1, chClosed = True\<rparr>,
                 reservedFunctions = [\<lparr>func = helloFn, args = []\<rparr>]\<rparr>,
              notify := Unsubscribed, task := Dispatching\<rparr>) \<and>
   step exampleEnv (Select CaseSignal) (cancel (New [2])) = None \<and>
   step exampleEnv (Select CaseDone) (cancel (New [2])) = Some ((cancel (New [2]))\<lparr>task := Stopped\<rparr>) \<and>
   step exampleEnv (Select CaseDone) ((cancel (New [2]))\<lparr>task := Stopped\<rparr>) = None \<and>
   step exampleEnv RunExec ((cancel (New [2]))\<lparr>task := Stopped\<rparr>) = None"
proof -
  define p where "p = (New [2])\<lparr>dispatcher :=
                \<lparr>ctxDone = True,
                 signalCh = \<lparr>chBuf = [2], chCap = 1, chClosed = True\<rparr>,
                 reservedFunctions = [\<lparr>func = helloFn, args = []\<rparr>]\<rparr>,
              notify := Unsubscribed\<rparr>"
  have r: "run exampleEnv [CallReserve helloFn [], Raise 2, CallClose] (New [2]) = Some p"
    by (simp add: p_def New_def reserve_hello Close_def closeCh_def cancel_def signal_Stop_def
        deliver_def)
  have pre: "task p = Waiting \<and> panicked p = None \<and> ctxDone (dispatcher p) \<and>
      chBuf (signalCh (dispatcher p)) = 2 # []"
    by (simp add: p_def New_def)
  from select_cancellation_and_signal
    [where p = p and sig = 2 and rest = "[]" and env = exampleEnv] pre
  have both: "step exampleEnv (Select CaseDone) p = Some (p\<lparr>task := Stopped\<rparr>)"
    "step exampleEnv (Select CaseSignal) p =
        Some (p\<lparr>dispatcher := (dispatcher p)
                   \<lparr>signalCh := (signalCh (dispatcher p))\<lparr>chBuf := []\<rparr>\<rparr>,
                 task := Dispatching\<rparr>)"
    by blast+
  have pre2: "task (cancel (New [2])) = Waiting \<and> panicked (cancel (New [2])) = None \<and>
      ctxDone (dispatcher (cancel (New [2]))) \<and>
      chBuf (signalCh (dispatcher (cancel (New [2])))) = [] \<and>
      chClosed (signalCh (dispatcher (cancel (New [2])))) = False"
    by (simp add: cancel_def New_def)
  from select_cancellation_and_signal [where p = "cancel (New [2])" and env = exampleEnv] pre2
  have alone: "step exampleEnv (Select CaseSignal) (cancel (New [2])) = None"
    "step exampleEnv (Select CaseDone) (cancel (New [2]))
       = Some ((cancel (New [2]))\<lparr>task := Stopped\<rparr>)"
    by blast+
  have pre3: "task ((cancel (New [2]))\<lparr>task := Stopped\<rparr>) = Stopped" by simp
  from select_cancellation_and_signal
    [where p = "(cancel (New [2]))\<lparr>task := Stopped\<rparr>" and env = exampleEnv and c = CaseDone] pre3
  have stopped: "step exampleEnv (Select CaseDone) ((cancel (New [2]))\<lparr>task := Stopped\<rparr>) = None"
    "step exampleEnv RunExec ((cancel (New [2]))\<lparr>task := Stopped\<rparr>) = None"
    by blast+
  from r both have "run exampleEnv [CallReserve helloFn [], Raise 2, CallClose] (New [2])
     = Some ((New [2])\<lparr>dispatcher :=
                \<lparr>ctxDone = True,
                 signalCh = \<lparr>chBuf = [2], chCap = 1, chClosed = True\<rparr>,
                 reservedFunctions = [\<lparr>func = helloFn, args = []\<rparr>]\<rparr>,
              notify := Unsubscribed\<rparr>) \<and>
   step exampleEnv (Select CaseDone)
       ((New [2])\<lparr>dispatcher :=
                \<lparr>ctxDone = True,
                 signalCh = \<lparr>chBuf = [2], chCap = 1, chClosed = True\<rparr>,
                 reservedFunctions = [\<lparr>func = helloFn, args = []\<rparr>]\<rparr>,
              notify := Unsubscribed\<rparr>)
     = Some ((New [2])\<lparr>dispatcher :=
                \<lparr>ctxDone = True,
                 signalCh = \<lparr>chBuf = [2], chCap = 1, chClosed = True\<rparr>,
                 reservedFunctions = [\<lparr>func = helloFn, args = []\<rparr>]\<rparr>,
              notify := Unsubscribed, task := Stopped\<rparr>) \<and>
   step exampleEnv (Select CaseSignal)
       ((New [2])\<lparr>dispatcher :=
                \<lparr>ctxDone = True,
                 signalCh = \<lparr>chBuf = [2], chCap = 1, chClosed = True\<rparr>,
                 reservedFunctions = [\<lparr>func = helloFn, args = []\<rparr>]\<rparr>,
              notify := Unsubscribed\<rparr>)
     = Some ((New [2])\<lparr>dispatcher :=
                \<lparr>ctxDone = True,
                 signalCh = \<lparr>chBuf = [], chCap = 1, chClosed = True\<rparr>,
                 reservedFunctions = [\<lparr>func = helloFn, args = []\<rparr>]\<rparr>,
              notify := Unsubscribed, task := Dispatching\<rparr>)"
    unfolding p_def by (simp add: New_def)
  with alone stopped show ?thesis by (intro conjI) blast+
qed

text \<open>
  Claim C7 as stated fails: with a notification queued when \<^verbatim>\<open>Close\<close> is called,
  the \<^verbatim>\<open>select\<close> may take the signal case, and the dispatch runs after the
  cancellation.
\<close>

theorem select_cancellation_priority_counterexample:
  "run exampleEnv [CallReserve helloFn [], Raise 2, CallClose] (New [2])
     = Some ((New [2])\<lparr>dispatcher :=
                \<lparr>ctxDone = True,
                 signalCh = \<lparr>chBuf = [2], chCap = 1, chClosed = True\<rparr>,
                 reservedFunctions = [\<lparr>func = helloFn, args = []\<rparr>]\<rparr>,
              notify := Unsubscribed\<rparr>) \<and>
   run exampleEnv [CallReserve helloFn [], Raise 2, CallClose, Select CaseSignal, RunExec] (New [2])
     = Some ((New [2])\<lparr>dispatcher :=
                \<lparr>ctxDone = True,
                 signalCh = \<lparr>chBuf = [], chCap = 1, chClosed = True\<rparr>,
                 reservedFunctions = [\<lparr>func = helloFn, args = []\<rparr>]\<rparr>,
              notify := Unsubscribed,
              calls := [(helloFn, [])],
              dispatches := 1\<rparr>)"
  by (simp add: New_def reserve_hello Close_def closeCh_def cancel_def signal_Stop_def
      deliver_def listenSelect_def listenExec_def exec_def execLoop_Cons hello_call)

section \<open>Panics of reflect.Value.Call in a dispatch\<close>

text \<open>
  Claim C10, at an input where the code departs from it. \<^verbatim>\<open>Reserve\<close> checks a
  variadic function as \<^verbatim>\<open>NumIn\<close> and \<^verbatim>\<open>In\<close> describe it, with one final
  parameter of type \<^verbatim>\<open>[]T\<close>, while \<^verbatim>\<open>exec\<close> calls it with \<^verbatim>\<open>Call\<close>, which
  takes the arguments of the final parameter one by one: \<^verbatim>\<open>func(xs ...int)\<close> is
  reserved with the non-nil argument \<^verbatim>\<open>[]int{1, 2}\<close>, and the dispatch panics in
  \<^verbatim>\<open>Call\<close> before the function is entered, with a callback that would return.
\<close>

theorem exec_variadic_fault:
  "Reserve (dispatcher (New [2])) (VFunc [] (Some TInt) (Some ''f'')) [VSlice TInt [VInt 1, VInt 2]]
     = ((dispatcher (New [2]))\<lparr>reservedFunctions :=
          [\<lparr>func = VFunc [] (Some TInt) (Some ''f''), args = [VSlice TInt [VInt 1, VInt 2]]\<rparr>]\<rparr>,
        None) \<and>
   list_all (\<lambda>a. a \<noteq> VNil) [VSlice TInt [VInt 1, VInt 2]] \<and>
   exec (\<lambda>name as. Returns)
       ((dispatcher (New [2]))\<lparr>reservedFunctions :=
          [\<lparr>func = VFunc [] (Some TInt) (Some ''f''), args = [VSlice TInt [VInt 1, VInt 2]]\<rparr>]\<rparr>)
     = ([(VFunc [] (Some TInt) (Some ''f''), [VSlice TInt [VInt 1, VInt 2]])],
        Some VariadicArgumentNotAssignable)"
  by (simp add: reserve_variadic New_def exec_def execLoop_Cons Call_def KindOf_def
      typeAssignable_def AssignableTo_def)

text \<open>
  For a function that is neither nil nor variadic, the checks of \<^verbatim>\<open>Reserve\<close> are
  those of \<^verbatim>\<open>Call\<close>: with bound arguments that are all non-nil, the only panic of
  the call is the callback's own.
\<close>

lemma Call_checked_entry:
  assumes inv: "reservedInvariant fd" and nonnil: "list_all (\<lambda>a. a \<noteq> VNil) (args fd)"
    and f: "func fd = VFunc ps None (Some name)"
  shows "Call env (func fd) (args fd) =
     (case env name (args fd) of Returns \<Rightarrow> None | Panics \<Rightarrow> Some CallbackPanic)"
proof -
  have len: "length (args fd) = length ps"
    using inv f by (simp add: reservedInvariant_def TypeOfFunc_def NumIn_def)
  have 1: "\<not> list_ex (\<lambda>x. KindOf x = KInvalid) (args fd)"
  proof -
    have "KindOf x \<noteq> KInvalid" if "x \<noteq> VNil" for x
      using that by (cases x) (simp_all add: KindOf_def)
    with nonnil show ?thesis by (auto simp: list_all_iff list_ex_iff)
  qed
  have 2: "list_all (\<lambda>(x, t). typeAssignable x t) (zip (args fd) ps)"
  proof -
    from inv f have "list_all (\<lambda>(a, t). a = VNil \<or> typeAssignable a t) (zip (args fd) ps)"
      by (simp add: reservedInvariant_def TypeOfFunc_def)
    moreover have "a \<noteq> VNil" if "(a, t) \<in> set (zip (args fd) ps)" for a t
      using that nonnil by (auto simp: list_all_iff dest: set_zip_leftD)
    ultimately show ?thesis by (fastforce simp: list_all_iff)
  qed
  show ?thesis using len 1 2 by (simp add: Call_def f)
qed

text \<open>
  A typed nil function, \<^verbatim>\<open>var f func()\<close>, is of kind \<^verbatim>\<open>Func\<close>: \<^verbatim>\<open>Reserve\<close>
  accepts it and \<^verbatim>\<open>Call\<close> panics on it.
\<close>

lemma exec_nil_function_fault:
  "Reserve (dispatcher (New [2])) (VFunc [] None None) []
     = ((dispatcher (New [2]))\<lparr>reservedFunctions := [\<lparr>func = VFunc [] None None, args = []\<rparr>]\<rparr>,
        None) \<and>
   exec (\<lambda>name as. Returns)
       ((dispatcher (New [2]))\<lparr>reservedFunctions := [\<lparr>func = VFunc [] None None, args = []\<rparr>]\<rparr>)
     = ([(VFunc [] None None, [])], Some CallOfNilFunction)"
  by (simp add: Reserve_def KindOf_def ValueOf_def TypeOfFunc_def NumIn_def checkArgs.simps
      New_def exec_def execLoop_Cons Call_def)

text \<open>
  A nil bound to a pointer parameter, as \<^verbatim>\<open>Reserve(func(a *string) {}, nil)\<close> of the
  tests: \<^verbatim>\<open>reflect.ValueOf(nil)\<close> is the zero Value, on which \<^verbatim>\<open>Call\<close> panics.
\<close>

lemma exec_nil_argument_fault:
  "Reserve (dispatcher (New [2])) (VFunc [TPtr TString] None (Some ''f'')) [VNil]
     = ((dispatcher (New [2]))\<lparr>reservedFunctions :=
          [\<lparr>func = VFunc [TPtr TString] None (Some ''f''), args = [VNil]\<rparr>]\<rparr>,
        None) \<and>
   exec (\<lambda>name as. Returns)
       ((dispatcher (New [2]))\<lparr>reservedFunctions :=
          [\<lparr>func = VFunc [TPtr TString] None (Some ''f''), args = [VNil]\<rparr>]\<rparr>)
     = ([(VFunc [TPtr TString] None (Some ''f''), [VNil])], Some ZeroValueArgument)"
  by (simp add: Reserve_def KindOf_def ValueOf_def TypeOfFunc_def NumIn_def checkArgs.simps
      New_def exec_def execLoop_Cons Call_def)

text \<open>
  After \<^verbatim>\<open>Close\<close> the receive from the closed channel can always proceed, so the
  \<^verbatim>\<open>select\<close> may take the signal case with nothing queued and run a dispatch.
\<close>

lemma dispatch_from_closed_channel:
  "run exampleEnv [CallReserve helloFn [], CallClose, Select CaseSignal, RunExec] (New [2])
     = Some ((New [2])\<lparr>dispatcher :=
                \<lparr>ctxDone = True,
                 signalCh = \<lparr>chBuf = [], chCap = 1, chClosed = True\<rparr>,
                 reservedFunctions = [\<lparr>func = helloFn, args = []\<rparr>]\<rparr>,
              notify := Unsubscribed,
              calls := [(helloFn, [])],
              dispatches := 1\<rparr>)"
  by (simp add: New_def reserve_hello Close_def closeCh_def cancel_def signal_Stop_def
      listenSelect_def listenExec_def exec_def execLoop_Cons hello_call)

end
